theory Spec2Isabelle
  imports
    Complex_Main
    "HOL-Library.Sublist"
    "HOL-Library.AList"
    "HOL-Library.Char_ord"
    "HOL-Library.List_Lexorder"
    "HOL-Library.Monad_Syntax"
begin

section \<open>JavaScript values as the script sees them\<close>

text \<open>
  The script \<^verbatim>\<open>scripts/sync-openclaw-metrics.mjs\<close> works on whatever
  \<^verbatim>\<open>JSON.parse\<close> returns, so the model starts from the values of JavaScript that
  JSON can produce, plus \<^verbatim>\<open>undefined\<close> (the result of reading a missing property).

  Numbers: a double is idealised as an exact rational; the one special value kept is
  \<^verbatim>\<open>NaN\<close>, which \<^verbatim>\<open>Number(...)\<close> produces and addition propagates. Rounding and
  overflow to \<^verbatim>\<open>Infinity\<close> are outside the model.

  Strings: a \<^typ>\<open>char\<close> stands for one code unit; the character set of the model is
  the 8-bit one of \<^typ>\<open>string\<close>.

  An uncaught exception (\<^verbatim>\<open>TypeError\<close>, a failed file read) is the result \<open>None\<close>:
  the process dies before it writes anything.
\<close>

datatype jsnum = Num rat | NaN

datatype js =
    JUndefined
  | JNull
  | JBool bool
  | JNumber rat
  | JString string
  | JArray "js list"
  | JObject "(string \<times> js) list"

text \<open>\<^verbatim>\<open>a + b\<close> and \<^verbatim>\<open>a - b\<close> on numbers.\<close>

fun js_add :: "jsnum \<Rightarrow> jsnum \<Rightarrow> jsnum" where
  "js_add (Num a) (Num b) = Num (a + b)"
| "js_add _ _ = NaN"

fun js_sub :: "jsnum \<Rightarrow> jsnum \<Rightarrow> jsnum" where
  "js_sub (Num a) (Num b) = Num (a - b)"
| "js_sub _ _ = NaN"

text \<open>ToBoolean: what \<^verbatim>\<open>!x\<close> and \<^verbatim>\<open>x || y\<close> test.\<close>

fun truthy :: "js \<Rightarrow> bool" where
  "truthy JUndefined = False"
| "truthy JNull = False"
| "truthy (JBool b) = b"
| "truthy (JNumber r) = (r \<noteq> 0)"
| "truthy (JString s) = (s \<noteq> [])"
| "truthy (JArray xs) = True"
| "truthy (JObject kvs) = True"

text \<open>\<^verbatim>\<open>a || b\<close> (both operands are pure wherever this is used).\<close>

definition js_or :: "js \<Rightarrow> js \<Rightarrow> js" where
  "js_or a b = (if truthy a then a else b)"

fun nullish :: "js \<Rightarrow> bool" where
  "nullish JUndefined = True"
| "nullish JNull = True"
| "nullish _ = False"

text \<open>
  Reading a property of a value that is neither \<^verbatim>\<open>undefined\<close> nor \<^verbatim>\<open>null\<close>.
  An object made by \<^verbatim>\<open>JSON.parse\<close> holds its own properties (keys distinct, the
  lookup takes the first binding); none of the names the script reads (\<^verbatim>\<open>message\<close>,
  \<^verbatim>\<open>usage\<close>, \<^verbatim>\<open>cost\<close>, \<^verbatim>\<open>total\<close>, \<^verbatim>\<open>timestamp\<close>, \<^verbatim>\<open>model\<close>, \<^verbatim>\<open>modelId\<close>,
  \<^verbatim>\<open>input\<close>, \<^verbatim>\<open>output\<close>, \<^verbatim>\<open>cacheRead\<close>, \<^verbatim>\<open>cacheWrite\<close>, \<^verbatim>\<open>totalTokens\<close>) is
  inherited from a prototype, so on arrays and primitives they are \<^verbatim>\<open>undefined\<close>.
\<close>

fun property :: "js \<Rightarrow> string \<Rightarrow> js" where
  "property (JObject kvs) k = (case map_of kvs k of None \<Rightarrow> JUndefined | Some v \<Rightarrow> v)"
| "property _ k = JUndefined"

text \<open>\<^verbatim>\<open>v.k\<close>: throws on \<^verbatim>\<open>undefined\<close> and \<^verbatim>\<open>null\<close>.\<close>

definition get :: "js \<Rightarrow> string \<Rightarrow> js option" where
  "get v k = (if nullish v then None else Some (property v k))"

text \<open>\<^verbatim>\<open>v?.k\<close>: \<^verbatim>\<open>undefined\<close> on \<^verbatim>\<open>undefined\<close> and \<^verbatim>\<open>null\<close>.\<close>

definition opt_get :: "js \<Rightarrow> string \<Rightarrow> js" where
  "opt_get v k = (if nullish v then JUndefined else property v k)"

section \<open>The provider classifier\<close>

text \<open>
  \<^verbatim>\<open>function providerFromModel(model = '')\<close>. The default applies to \<^verbatim>\<open>undefined\<close>
  only. \<^verbatim>\<open>startsWith\<close> exists on strings alone: on any other value the first call
  throws \<^verbatim>\<open>TypeError\<close>.
\<close>

definition providerFromModel :: "js \<Rightarrow> string option" where
  "providerFromModel arg =
     (case (if arg = JUndefined then JString [] else arg) of
        JString model \<Rightarrow>
          Some (if prefix ''anthropic/'' model \<or> sublist ''claude'' model then ''Anthropic''
                else if prefix ''openai/'' model then ''OpenAI''
                else if prefix ''openai-codex/'' model then ''OpenAI Codex''
                else if prefix ''google/'' model then ''Google''
                else if prefix ''xai/'' model then ''xAI''
                else ''Other'')
      | _ \<Rightarrow> None)"

text \<open>
  The rule list as the specification words it (section 4.2), first match wins, with the
  \<^verbatim>\<open>openai-codex/\<close> rule second and the \<^verbatim>\<open>openai/\<close> rule third.
\<close>

definition provider_rules_spec :: "string \<Rightarrow> string" where
  "provider_rules_spec ident =
     (if prefix ''anthropic/'' ident \<or> sublist ''claude'' ident then ''Anthropic''
      else if prefix ''openai-codex/'' ident then ''OpenAI Codex''
      else if prefix ''openai/'' ident then ''OpenAI''
      else if prefix ''google/'' ident then ''Google''
      else if prefix ''xai/'' ident then ''xAI''
      else ''Other'')"

section \<open>Built-ins taken from the host\<close>

text \<open>
  Four library functions of the JavaScript runtime are parameters of the model:
  \<^item> \<open>JSON_parse\<close>: \<^verbatim>\<open>JSON.parse\<close>; \<open>None\<close> is the \<^verbatim>\<open>SyntaxError\<close> it throws;
  \<^item> \<open>StringToNumber\<close>: the number a string converts to under \<^verbatim>\<open>Number(s)\<close>
    (\<^verbatim>\<open>NaN\<close> when the string is not a numeric literal);
  \<^item> \<open>NumberToString\<close>: the decimal text of a number under \<^verbatim>\<open>String(n)\<close>;
  \<^item> \<open>localeCompare\<close>: \<^verbatim>\<open>a.localeCompare(b)\<close>, the collation of the runtime's locale
    (negative, zero or positive).
\<close>

record host =
  JSON_parse :: "string \<Rightarrow> js option"
  StringToNumber :: "string \<Rightarrow> jsnum"
  NumberToString :: "rat \<Rightarrow> string"
  localeCompare :: "string \<Rightarrow> string \<Rightarrow> int"

text \<open>
  \<^verbatim>\<open>String(v)\<close>. An array is joined with commas, \<^verbatim>\<open>undefined\<close> and \<^verbatim>\<open>null\<close>
  elements giving the empty string. A plain object gives \<^verbatim>\<open>[object Object]\<close>, unless
  it has an own property \<^verbatim>\<open>toString\<close>: a JSON value is not callable, the inherited
  \<^verbatim>\<open>valueOf\<close> returns the object itself, and the conversion throws \<^verbatim>\<open>TypeError\<close>.
\<close>

fun js_String :: "host \<Rightarrow> js \<Rightarrow> string option"
  and join_elems :: "host \<Rightarrow> js list \<Rightarrow> string option"
  and elem_String :: "host \<Rightarrow> js \<Rightarrow> string option"
where
  "js_String h JUndefined = Some ''undefined''"
| "js_String h JNull = Some ''null''"
| "js_String h (JBool b) = Some (if b then ''true'' else ''false'')"
| "js_String h (JNumber r) = Some (NumberToString h r)"
| "js_String h (JString s) = Some s"
| "js_String h (JArray xs) = join_elems h xs"
| "js_String h (JObject kvs) =
     (if ''toString'' \<in> fst ` set kvs then None else Some ''[object Object]'')"
| "join_elems h [] = Some []"
| "join_elems h [x] = elem_String h x"
| "join_elems h (x # y # ys) =
     (case elem_String h x of
        None \<Rightarrow> None
      | Some s \<Rightarrow> map_option (\<lambda>r. s @ '','' @ r) (join_elems h (y # ys)))"
| "elem_String h x = (if nullish x then Some [] else js_String h x)"

text \<open>
  \<^verbatim>\<open>Number(v)\<close>. Arrays and objects are first converted to a primitive, which for
  values made by \<^verbatim>\<open>JSON.parse\<close> is their string.
\<close>

fun js_Number :: "host \<Rightarrow> js \<Rightarrow> jsnum option" where
  "js_Number h JUndefined = Some NaN"
| "js_Number h JNull = Some (Num 0)"
| "js_Number h (JBool b) = Some (Num (if b then 1 else 0))"
| "js_Number h (JNumber r) = Some (Num r)"
| "js_Number h (JString s) = Some (StringToNumber h s)"
| "js_Number h (JArray xs) = map_option (StringToNumber h) (js_String h (JArray xs))"
| "js_Number h (JObject kvs) = map_option (StringToNumber h) (js_String h (JObject kvs))"

section \<open>The record reader\<close>

text \<open>
  \<^verbatim>\<open>String.prototype.trim\<close> removes white space and line terminators at both ends:
  of the 8-bit code units these are TAB, LF, VT, FF, CR, SPACE and NBSP.
\<close>

definition isWhiteSpace :: "char \<Rightarrow> bool" where
  "isWhiteSpace c = (c \<in> {CHR 0x09, CHR 0x0A, CHR 0x0B, CHR 0x0C, CHR 0x0D, CHR 0x20, CHR 0xA0})"

definition trim :: "string \<Rightarrow> string" where
  "trim s = rev (dropWhile isWhiteSpace (rev (dropWhile isWhiteSpace s)))"

text \<open>\<^verbatim>\<open>s.split('\n')\<close>: the pieces between line feeds; the empty string gives one empty piece.\<close>

fun split_nl :: "string \<Rightarrow> string list" where
  "split_nl [] = [[]]"
| "split_nl (c # cs) =
     (if c = CHR 0x0A then [] # split_nl cs
      else (case split_nl cs of [] \<Rightarrow> [[c]] | l # ls \<Rightarrow> (c # l) # ls))"

text \<open>
  The loop of \<^verbatim>\<open>readJsonl\<close> over the lines, \<open>rows\<close> being the array built so far;
  the \<^verbatim>\<open>catch\<close> block is empty.
\<close>

fun readJsonl_loop :: "host \<Rightarrow> js list \<Rightarrow> string list \<Rightarrow> js list" where
  "readJsonl_loop h rows [] = rows"
| "readJsonl_loop h rows (line # lines) =
     (let trimmed = trim line in
      if trimmed = [] then readJsonl_loop h rows lines
      else (case JSON_parse h trimmed of
              Some v \<Rightarrow> readJsonl_loop h (rows @ [v]) lines
            | None \<Rightarrow> readJsonl_loop h rows lines))"

text \<open>\<open>readJsonl\<close> on the text of the file (reading the file is done by the caller here).\<close>

definition readJsonl :: "host \<Rightarrow> string \<Rightarrow> js list" where
  "readJsonl h content = readJsonl_loop h [] (split_nl content)"

text \<open>
  The reader as the specification words it (section 4.1): one parsed value per non-empty
  line, lines that fail to parse dropped, lines empty after trimming never parsed.
\<close>

definition readJsonl_spec :: "host \<Rightarrow> string \<Rightarrow> js list" where
  "readJsonl_spec h content =
     List.map_filter (JSON_parse h) (filter (\<lambda>l. l \<noteq> []) (map trim (split_nl content)))"

section \<open>Accumulators\<close>

text \<open>
  The three kinds of accumulator object share the fields \<^verbatim>\<open>calls\<close>,
  \<^verbatim>\<open>inputTokens\<close>, \<^verbatim>\<open>outputTokens\<close>, \<^verbatim>\<open>totalTokens\<close> and \<^verbatim>\<open>cost\<close>;
  \<^verbatim>\<open>calls\<close> starts at 0 and only ever grows by 1, so it is a natural number.
\<close>

record metric =
  calls :: nat
  inputTokens :: jsnum
  outputTokens :: jsnum
  totalTokens :: jsnum
  cost :: jsnum

record Totals = metric +
  cacheRead :: jsnum
  cacheWrite :: jsnum

record DailyMetric = metric +
  date :: string

record ModelMetric = metric +
  model :: js
  provider :: string

text \<open>
  The two \<^verbatim>\<open>Map\<close>s keep their keys in insertion order: \<^verbatim>\<open>get\<close> is \<^const>\<open>map_of\<close>,
  \<^verbatim>\<open>set\<close> is \<^const>\<open>AList.update\<close> (in place for a key already there, at the end
  for a new one). \<open>ticks\<close> counts the readings of the clock made so far.
\<close>

record agg =
  totals :: Totals
  byDay :: "(string \<times> DailyMetric) list"
  byModel :: "(js \<times> ModelMetric) list"
  ticks :: nat

definition init_agg :: agg where
  "init_agg =
     \<lparr> totals = \<lparr> calls = 0, inputTokens = Num 0, outputTokens = Num 0, totalTokens = Num 0,
                  cost = Num 0, cacheRead = Num 0, cacheWrite = Num 0 \<rparr>,
       byDay = [], byModel = [], ticks = 0 \<rparr>"

section \<open>The aggregation loop\<close>

text \<open>
  \<^verbatim>\<open>event.timestamp || msg.timestamp || new Date().toISOString()\<close>: the clock is read
  only when both fields are falsy. The result is the value and the number of clock
  readings after it.
\<close>

definition resolve_ts :: "(nat \<Rightarrow> string) \<Rightarrow> nat \<Rightarrow> js \<Rightarrow> js \<Rightarrow> (js \<times> nat) option" where
  "resolve_ts clock n event msg =
     do {
       t1 \<leftarrow> get event ''timestamp'';
       if truthy t1 then Some (t1, n)
       else do {
         t2 \<leftarrow> get msg ''timestamp'';
         if truthy t2 then Some (t2, n) else Some (JString (clock n), Suc n)
       }
     }"

text \<open>\<^verbatim>\<open>msg.model || msg.modelId || 'unknown'\<close>.\<close>

definition resolve_model :: "js \<Rightarrow> js option" where
  "resolve_model msg =
     do {
       m1 \<leftarrow> get msg ''model'';
       if truthy m1 then Some m1
       else do {
         m2 \<leftarrow> get msg ''modelId'';
         Some (js_or m2 (JString ''unknown''))
       }
     }"

text \<open>\<^verbatim>\<open>Number(obj.k || 0)\<close>.\<close>

definition usage_number :: "host \<Rightarrow> js \<Rightarrow> string \<Rightarrow> jsnum option" where
  "usage_number h obj k =
     do {
       v \<leftarrow> get obj k;
       js_Number h (js_or v (JNumber 0))
     }"

text \<open>
  The five updates every accumulator receives:
  \<^verbatim>\<open>calls += 1\<close>, \<^verbatim>\<open>inputTokens += ...\<close>, \<^verbatim>\<open>outputTokens += ...\<close>,
  \<^verbatim>\<open>totalTokens += ...\<close>, \<^verbatim>\<open>cost += ...\<close>.
\<close>

definition add_usage ::
  "jsnum \<Rightarrow> jsnum \<Rightarrow> jsnum \<Rightarrow> jsnum \<Rightarrow> 'a metric_scheme \<Rightarrow> 'a metric_scheme" where
  "add_usage inp out tot cst m =
     m\<lparr> calls := calls m + 1,
        inputTokens := js_add (inputTokens m) inp,
        outputTokens := js_add (outputTokens m) out,
        totalTokens := js_add (totalTokens m) tot,
        cost := js_add (cost m) cst \<rparr>"

text \<open>
  \<^verbatim>\<open>byDay.get(date) || { date, calls: 0, ... }\<close> and
  \<^verbatim>\<open>byModel.get(model) || { model, provider, calls: 0, ... }\<close>: the entries of the maps
  are objects, hence truthy, so the fresh object is taken exactly when the key is new.
\<close>

definition day_entry :: "agg \<Rightarrow> string \<Rightarrow> DailyMetric" where
  "day_entry st dt =
     (case map_of (byDay st) dt of
        Some d \<Rightarrow> d
      | None \<Rightarrow> \<lparr> calls = 0, inputTokens = Num 0, outputTokens = Num 0,
                  totalTokens = Num 0, cost = Num 0, date = dt \<rparr>)"

definition model_entry :: "agg \<Rightarrow> js \<Rightarrow> string \<Rightarrow> ModelMetric" where
  "model_entry st mdl prov =
     (case map_of (byModel st) mdl of
        Some m \<Rightarrow> m
      | None \<Rightarrow> \<lparr> calls = 0, inputTokens = Num 0, outputTokens = Num 0,
                  totalTokens = Num 0, cost = Num 0, model = mdl, provider = prov \<rparr>)"

text \<open>
  The body of the inner loop for one event; \<open>Some st\<close> unchanged is \<^verbatim>\<open>continue\<close>.
  The script evaluates \<^verbatim>\<open>Number(usage.input || 0)\<close> and its siblings once for each
  accumulator; the expressions are pure, so the model evaluates each of the six once, in
  the order of the \<^verbatim>\<open>totals\<close> block, where each is met first.
\<close>

definition processEvent :: "host \<Rightarrow> (nat \<Rightarrow> string) \<Rightarrow> agg \<Rightarrow> js \<Rightarrow> agg option" where
  "processEvent h clock st event =
     (let msg = opt_get event ''message'';
          usage = opt_get msg ''usage''
      in
      if \<not> truthy usage then Some st
      else do {
        usage_cost \<leftarrow> get usage ''cost'';
        if \<not> truthy usage_cost then Some st
        else do {
          (ts, n) \<leftarrow> resolve_ts clock (ticks st) event msg;
          s \<leftarrow> js_String h ts;
          let dt = take 10 s;
          mdl \<leftarrow> resolve_model msg;
          prov \<leftarrow> providerFromModel mdl;
          inp \<leftarrow> usage_number h usage ''input'';
          out \<leftarrow> usage_number h usage ''output'';
          cr \<leftarrow> usage_number h usage ''cacheRead'';
          cw \<leftarrow> usage_number h usage ''cacheWrite'';
          tot \<leftarrow> usage_number h usage ''totalTokens'';
          cst \<leftarrow> usage_number h usage_cost ''total'';
          let totals' = (add_usage inp out tot cst (totals st))
                \<lparr> cacheRead := js_add (cacheRead (totals st)) cr,
                  cacheWrite := js_add (cacheWrite (totals st)) cw \<rparr>;
          let day = day_entry st dt;
          let modelAgg = model_entry st mdl prov;
          Some \<lparr> totals = totals',
                 byDay = AList.update dt (add_usage inp out tot cst day) (byDay st),
                 byModel = AList.update mdl (add_usage inp out tot cst modelAgg) (byModel st),
                 ticks = n \<rparr>
        }
      })"

text \<open>
  Names for what the loop body reads from an event: \<^verbatim>\<open>msg\<close>, \<^verbatim>\<open>usage\<close>, and the
  negation of the test \<^verbatim>\<open>!usage || !usage.cost\<close> that guards \<^verbatim>\<open>continue\<close>.
\<close>

definition msg_of :: "js \<Rightarrow> js" where
  "msg_of event = opt_get event ''message''"

definition usage_of :: "js \<Rightarrow> js" where
  "usage_of event = opt_get (msg_of event) ''usage''"

definition included :: "js \<Rightarrow> bool" where
  "included event = (truthy (usage_of event) \<and> truthy (property (usage_of event) ''cost''))"

text \<open>\<^verbatim>\<open>for (const event of events)\<close>: an exception ends the run.\<close>

fun processEvents :: "host \<Rightarrow> (nat \<Rightarrow> string) \<Rightarrow> agg \<Rightarrow> js list \<Rightarrow> agg option" where
  "processEvents h clock st [] = Some st"
| "processEvents h clock st (event # events) =
     (case processEvent h clock st event of
        None \<Rightarrow> None
      | Some st' \<Rightarrow> processEvents h clock st' events)"

text \<open>
  \<^verbatim>\<open>for (const filePath of files)\<close>. A file is given by what \<^verbatim>\<open>fs.readFileSync\<close>
  returns for it: \<open>Some\<close> text, or \<open>None\<close> when the read throws (a directory named
  \<^verbatim>\<open>x.jsonl\<close>, a file that may not be read).
\<close>

fun processFiles :: "host \<Rightarrow> (nat \<Rightarrow> string) \<Rightarrow> agg \<Rightarrow> string option list \<Rightarrow> agg option" where
  "processFiles h clock st [] = Some st"
| "processFiles h clock st (file # files) =
     (case file of
        None \<Rightarrow> None
      | Some content \<Rightarrow>
          (case processEvents h clock st (readJsonl h content) of
             None \<Rightarrow> None
           | Some st' \<Rightarrow> processFiles h clock st' files))"

section \<open>The payload\<close>

text \<open>
  \<^verbatim>\<open>Array.prototype.sort(comparefn)\<close>. The standard asks for a stable sort and reads a
  \<^verbatim>\<open>NaN\<close> returned by the comparator as \<open>+0\<close>; for a consistent comparator this
  fixes the result, which a stable insertion sort computes. For an inconsistent
  comparator the standard leaves the order to the implementation.
\<close>

fun before_or_equal :: "jsnum \<Rightarrow> bool" where
  "before_or_equal (Num r) = (r \<le> 0)"
| "before_or_equal NaN = True"

fun insert_by :: "('a \<Rightarrow> 'a \<Rightarrow> jsnum) \<Rightarrow> 'a \<Rightarrow> 'a list \<Rightarrow> 'a list" where
  "insert_by cmp x [] = [x]"
| "insert_by cmp x (y # ys) =
     (if before_or_equal (cmp x y) then x # y # ys else y # insert_by cmp x ys)"

definition js_sort :: "('a \<Rightarrow> 'a \<Rightarrow> jsnum) \<Rightarrow> 'a list \<Rightarrow> 'a list" where
  "js_sort cmp xs = foldr (insert_by cmp) xs []"

record MetricsPayload =
  generatedAt :: string
  source :: string
  totals :: Totals
  daily :: "DailyMetric list"
  models :: "ModelMetric list"

definition make_payload :: "host \<Rightarrow> (nat \<Rightarrow> string) \<Rightarrow> agg \<Rightarrow> MetricsPayload" where
  "make_payload h clock st =
     \<lparr> generatedAt = clock (ticks st),
       source = ''openclaw session jsonl usage records'',
       totals = agg.totals st,
       daily = js_sort (\<lambda>a b. Num (of_int (localeCompare h (date a) (date b)))) (map snd (byDay st)),
       models = js_sort (\<lambda>a b. js_sub (cost b) (cost a)) (map snd (byModel st)) \<rparr>"

section \<open>The run\<close>

text \<open>
  The world the script runs in: the sessions directory (\<open>None\<close> when
  \<^verbatim>\<open>fs.existsSync\<close> is false, otherwise the entries \<^verbatim>\<open>fs.readdirSync\<close> lists, each
  with the result of reading it), the document at \<^verbatim>\<open>public/metrics.json\<close> (as the
  payload object, before serialisation), and the clock: \<open>clock w n\<close> is what the
  \<open>n\<close>-th \<^verbatim>\<open>new Date().toISOString()\<close> of the run returns. Creating \<^verbatim>\<open>public/\<close>
  and writing the document are taken to succeed.
\<close>

record world =
  sessionsDir :: "(string \<times> string option) list option"
  metrics_json :: "MetricsPayload option"
  clock :: "nat \<Rightarrow> string"

datatype outcome = KeptExisting | Wrote MetricsPayload | Threw

definition session_files :: "world \<Rightarrow> string option list" where
  "session_files w =
     (case sessionsDir w of
        None \<Rightarrow> []
      | Some entries \<Rightarrow> map snd (filter (\<lambda>(f, c). suffix ''.jsonl'' f) entries))"

definition main :: "host \<Rightarrow> world \<Rightarrow> outcome \<times> world" where
  "main h w =
     (let files = session_files w in
      if length files = 0 then (KeptExisting, w)
      else (case processFiles h (clock w) init_agg files of
              None \<Rightarrow> (Threw, w)
            | Some st \<Rightarrow>
                (let payload = make_payload h (clock w) st
                 in (Wrote payload, w\<lparr> metrics_json := Some payload \<rparr>))))"

text \<open>The events the outer loop meets, file after file (an unreadable file has none).\<close>

definition all_events :: "host \<Rightarrow> string option list \<Rightarrow> js list" where
  "all_events h files =
     concat (map (\<lambda>file. case file of None \<Rightarrow> [] | Some content \<Rightarrow> readJsonl h content) files)"

section \<open>The vocabulary of the claims\<close>

text \<open>
  The definitions of this section are not taken from the script: they put the words of
  the claims into HOL, to be compared with what the script computes.
\<close>

text \<open>Claim C1: the sessions directory is absent or lists no name ending in \<^verbatim>\<open>.jsonl\<close>.\<close>

definition no_log_files :: "world \<Rightarrow> bool" where
  "no_log_files w =
     (case sessionsDir w of
        None \<Rightarrow> True
      | Some entries \<Rightarrow> list_all (\<lambda>entry. \<not> suffix ''.jsonl'' (fst entry)) entries)"

text \<open>
  Claim C8: \<^verbatim>\<open>event.message.usage\<close> is present as an object and its \<^verbatim>\<open>cost\<close> is truthy.
\<close>

definition usage_object_with_truthy_cost :: "js \<Rightarrow> bool" where
  "usage_object_with_truthy_cost event =
     (case property (property event ''message'') ''usage'' of
        JObject kvs \<Rightarrow> truthy (property (JObject kvs) ''cost'')
      | _ \<Rightarrow> False)"

text \<open>
  Claim C9: \<^verbatim>\<open>message.model\<close> if truthy, otherwise \<^verbatim>\<open>message.modelId\<close> if truthy,
  otherwise the literal \<^verbatim>\<open>"unknown"\<close>.
\<close>

definition chosen_model :: "js \<Rightarrow> js" where
  "chosen_model event =
     (let msg = property event ''message'' in
      if truthy (property msg ''model'') then property msg ''model''
      else if truthy (property msg ''modelId'') then property msg ''modelId''
      else JString ''unknown'')"

text \<open>
  Claim C10: \<^verbatim>\<open>event.timestamp\<close> if truthy, otherwise \<^verbatim>\<open>message.timestamp\<close> if
  truthy, otherwise the current time (the reading \<open>now\<close> of the clock).
\<close>

definition chosen_timestamp :: "string \<Rightarrow> js \<Rightarrow> js" where
  "chosen_timestamp now event =
     (if truthy (property event ''timestamp'') then property event ''timestamp''
      else if truthy (property (property event ''message'') ''timestamp'')
        then property (property event ''message'') ''timestamp''
      else JString now)"

definition has_timestamp :: "js \<Rightarrow> bool" where
  "has_timestamp event =
     (truthy (property event ''timestamp'') \<or>
      truthy (property (property event ''message'') ''timestamp''))"

text \<open>
  Claim C8: none of the conversions that the loop body applies to an included event
  throws: \<^verbatim>\<open>String(ts)\<close> on the chosen timestamp, \<^verbatim>\<open>providerFromModel(model)\<close>
  on the chosen model, and \<^verbatim>\<open>Number(... || 0)\<close> on the five usage fields and on
  \<^verbatim>\<open>usage.cost.total\<close>.
\<close>

definition conversions_return :: "host \<Rightarrow> string \<Rightarrow> js \<Rightarrow> bool" where
  "conversions_return h now event =
     (js_String h (chosen_timestamp now event) \<noteq> None \<and>
      providerFromModel (chosen_model event) \<noteq> None \<and>
      list_all (\<lambda>k. usage_number h (usage_of event) k \<noteq> None)
        [''input'', ''output'', ''cacheRead'', ''cacheWrite'', ''totalTokens''] \<and>
      usage_number h (property (usage_of event) ''cost'') ''total'' \<noteq> None)"

text \<open>
  Claims C2 and C3: the sum of a list of numbers as the loop forms it, from 0 and from
  the left; the amount an event has in a usage field, \<^verbatim>\<open>Number(usage.k || 0)\<close>, and in
  \<^verbatim>\<open>usage.cost.total\<close>; and those amounts over the included events of a list, in order
  (\<open>None\<close> when a conversion throws).
\<close>

definition js_sum :: "jsnum list \<Rightarrow> jsnum" where
  "js_sum vs = foldl js_add (Num 0) vs"

definition usage_values :: "host \<Rightarrow> string \<Rightarrow> js list \<Rightarrow> jsnum list option" where
  "usage_values h k events =
     those (map (\<lambda>e. usage_number h (usage_of e) k) (filter included events))"

definition cost_values :: "host \<Rightarrow> js list \<Rightarrow> jsnum list option" where
  "cost_values h events =
     those (map (\<lambda>e. usage_number h (property (usage_of e) ''cost'') ''total'')
              (filter included events))"



text \<open>A sum that is a number and not \<^verbatim>\<open>NaN\<close>; a payload all of whose sums are numbers.\<close>

fun is_number :: "jsnum \<Rightarrow> bool" where
  "is_number (Num r) = True"
| "is_number NaN = False"



text \<open>
  Claim C5: the cost of an entry as a rational, where it is a number; the order in which
  the model keys are first met in a list of events.
\<close>

fun num_val :: "jsnum \<Rightarrow> rat" where
  "num_val (Num r) = r"
| "num_val NaN = 0"

definition discovery_order :: "js list \<Rightarrow> js list" where
  "discovery_order events = rev (remdups (rev (map chosen_model (filter included events))))"

section \<open>Sample data\<close>

text \<open>
  A host and a world for concrete runs. The sample host agrees with a JavaScript runtime
  on the arguments the examples give it: \<^verbatim>\<open>JSON.parse\<close> on the four event lines
  below and on text that is not JSON, \<^verbatim>\<open>Number\<close> on the strings \<^verbatim>\<open>""\<close> and \<^verbatim>\<open>"n/a"\<close>,
  \<^verbatim>\<open>String\<close> on the number 0, and \<^verbatim>\<open>localeCompare\<close> on ISO dates, which every
  collation orders as their code units do.
\<close>

definition line_anthropic :: string where
  \<open>line_anthropic =
     ''{"timestamp":"2026-02-20T10:00:00Z","message":{"model":"anthropic/claude-3","usage":{"input":3,"cost":{"total":1.5}}}}''\<close>

definition event_anthropic :: js where
  "event_anthropic =
     JObject [(''timestamp'', JString ''2026-02-20T10:00:00Z''),
              (''message'', JObject [(''model'', JString ''anthropic/claude-3''),
                 (''usage'', JObject [(''input'', JNumber 3),
                    (''cost'', JObject [(''total'', JNumber (3/2))])])])]"

definition line_openai :: string where
  \<open>line_openai =
     ''{"timestamp":"2026-02-20T11:00:00Z","message":{"model":"openai/gpt-4","usage":{"cost":{"total":2.25}}}}''\<close>

definition event_openai :: js where
  "event_openai =
     JObject [(''timestamp'', JString ''2026-02-20T11:00:00Z''),
              (''message'', JObject [(''model'', JString ''openai/gpt-4''),
                 (''usage'', JObject [(''cost'', JObject [(''total'', JNumber (9/4))])])])]"

text \<open>A third event line, without any timestamp, and a fourth whose cost is not a number.\<close>

definition line_no_timestamp :: string where
  \<open>line_no_timestamp =
     ''{"message":{"model":"xai/grok-2","usage":{"cost":{"total":1.5}}}}''\<close>

definition event_no_timestamp :: js where
  "event_no_timestamp =
     JObject [(''message'', JObject [(''model'', JString ''xai/grok-2''),
                 (''usage'', JObject [(''cost'', JObject [(''total'', JNumber (3/2))])])])]"

definition line_nan_cost :: string where
  \<open>line_nan_cost =
     ''{"timestamp":"2026-02-20T10:30:00Z","message":{"model":"local/llama","usage":{"cost":{"total":"n/a"}}}}''\<close>

definition event_nan_cost :: js where
  "event_nan_cost =
     JObject [(''timestamp'', JString ''2026-02-20T10:30:00Z''),
              (''message'', JObject [(''model'', JString ''local/llama''),
                 (''usage'', JObject [(''cost'', JObject [(''total'', JString ''n/a'')])])])]"

definition sample_host :: host where
  "sample_host =
     \<lparr> JSON_parse = (\<lambda>s. if s = line_anthropic then Some event_anthropic
                          else if s = line_openai then Some event_openai
                          else if s = line_no_timestamp then Some event_no_timestamp
                          else if s = line_nan_cost then Some event_nan_cost
                          else None),
       StringToNumber = (\<lambda>s. if s = [] then Num 0 else NaN),
       NumberToString = (\<lambda>r. ''0''),
       localeCompare = (\<lambda>a b. if a < b then - 1 else if a = b then 0 else 1) \<rparr>"

definition sample_clock :: "nat \<Rightarrow> string" where
  "sample_clock n = ''2026-03-01T00:00:00.000Z''"

definition next_day_clock :: "nat \<Rightarrow> string" where
  "next_day_clock n = ''2026-03-02T00:00:00.000Z''"

definition sample_text :: string where
  "sample_text =
     line_anthropic @ [CHR 0x0A] @ ''not json'' @ [CHR 0x0A] @ line_openai @ [CHR 0x0A] @
     line_no_timestamp @ [CHR 0x0A]"

definition sample_world :: world where
  "sample_world =
     \<lparr> sessionsDir = Some [(''notes.txt'', Some ''hello''), (''main.jsonl'', Some sample_text)],
       metrics_json = None,
       clock = sample_clock \<rparr>"

text \<open>The same files a day later.\<close>

definition next_day_world :: world where
  "next_day_world = sample_world \<lparr> clock := next_day_clock \<rparr>"

text \<open>A sessions directory that exists and holds no \<^verbatim>\<open>.jsonl\<close> file, and one that is absent.\<close>

definition world_without_logs :: world where
  "world_without_logs =
     \<lparr> sessionsDir = Some [(''notes.txt'', Some ''hello'')],
       metrics_json = None,
       clock = sample_clock \<rparr>"

definition world_without_directory :: world where
  "world_without_directory =
     \<lparr> sessionsDir = None,
       metrics_json = None,
       clock = sample_clock \<rparr>"

text \<open>A file in which the second of three models has a cost that is not a number.\<close>

definition nan_world :: world where
  "nan_world =
     \<lparr> sessionsDir = Some [(''main.jsonl'',
                           Some (line_anthropic @ [CHR 0x0A] @ line_nan_cost @ [CHR 0x0A] @
                                 line_openai))],
       metrics_json = None,
       clock = sample_clock \<rparr>"

text \<open>The accumulators after the loop body has run on the first sample event alone.\<close>

definition state_after_anthropic :: agg where
  "state_after_anthropic =
     \<lparr> agg.totals = \<lparr> calls = 1, inputTokens = Num 3, outputTokens = Num 0, totalTokens = Num 0,
                  cost = Num (3/2), cacheRead = Num 0, cacheWrite = Num 0 \<rparr>,
       byDay = [(''2026-02-20'',
                 \<lparr> calls = 1, inputTokens = Num 3, outputTokens = Num 0, totalTokens = Num 0,
                   cost = Num (3/2), date = ''2026-02-20'' \<rparr>)],
       byModel = [(JString ''anthropic/claude-3'',
                   \<lparr> calls = 1, inputTokens = Num 3, outputTokens = Num 0, totalTokens = Num 0,
                     cost = Num (3/2), model = JString ''anthropic/claude-3'',
                     provider = ''Anthropic'' \<rparr>)],
       ticks = 0 \<rparr>"

text \<open>
  An event whose own \<^verbatim>\<open>timestamp\<close> is the empty string and whose message has a
  \<^verbatim>\<open>modelId\<close> but no \<^verbatim>\<open>model\<close>, and the accumulators after it.
\<close>

definition event_modelId :: js where
  "event_modelId =
     JObject [(''timestamp'', JString []),
              (''message'', JObject [(''timestamp'', JString ''2026-02-21T08:00:00Z''),
                 (''modelId'', JString ''xai/grok-2''),
                 (''usage'', JObject [(''output'', JNumber 7), (''cost'', JObject [])])])]"

definition state_after_modelId :: agg where
  "state_after_modelId =
     \<lparr> agg.totals = \<lparr> calls = 1, inputTokens = Num 0, outputTokens = Num 7, totalTokens = Num 0,
                  cost = Num 0, cacheRead = Num 0, cacheWrite = Num 0 \<rparr>,
       byDay = [(''2026-02-21'',
                 \<lparr> calls = 1, inputTokens = Num 0, outputTokens = Num 7, totalTokens = Num 0,
                   cost = Num 0, date = ''2026-02-21'' \<rparr>)],
       byModel = [(JString ''xai/grok-2'',
                   \<lparr> calls = 1, inputTokens = Num 0, outputTokens = Num 7, totalTokens = Num 0,
                     cost = Num 0, model = JString ''xai/grok-2'', provider = ''xAI'' \<rparr>)],
       ticks = 0 \<rparr>"

text \<open>The accumulators after both sample events, in the order of the sample file.\<close>

definition state_after_both :: agg where
  "state_after_both =
     \<lparr> agg.totals = \<lparr> calls = 2, inputTokens = Num 3, outputTokens = Num 0, totalTokens = Num 0,
                  cost = Num (15/4), cacheRead = Num 0, cacheWrite = Num 0 \<rparr>,
       byDay = [(''2026-02-20'',
                 \<lparr> calls = 2, inputTokens = Num 3, outputTokens = Num 0, totalTokens = Num 0,
                   cost = Num (15/4), date = ''2026-02-20'' \<rparr>)],
       byModel = [(JString ''anthropic/claude-3'',
                   \<lparr> calls = 1, inputTokens = Num 3, outputTokens = Num 0, totalTokens = Num 0,
                     cost = Num (3/2), model = JString ''anthropic/claude-3'',
                     provider = ''Anthropic'' \<rparr>),
                  (JString ''openai/gpt-4'',
                   \<lparr> calls = 1, inputTokens = Num 0, outputTokens = Num 0, totalTokens = Num 0,
                     cost = Num (9/4), model = JString ''openai/gpt-4'',
                     provider = ''OpenAI'' \<rparr>)],
       ticks = 0 \<rparr>"



text \<open>
  An event with a usage object and a truthy cost whose \<^verbatim>\<open>message.model\<close> is the number
  5: \<^verbatim>\<open>model.startsWith\<close> is not a function there, and the loop body throws.
\<close>

definition event_numeric_model :: js where
  "event_numeric_model =
     JObject [(''timestamp'', JString ''2026-02-20T12:00:00Z''),
              (''message'', JObject [(''model'', JNumber 5),
                 (''usage'', JObject [(''cost'', JObject [(''total'', JNumber 1)])])])]"

text \<open>
  The accumulators after the three events of the sample file, the third dated \<open>d\<close> by
  the clock, and the payload made from them when the clock reads \<open>now\<close> and \<open>d\<close> is a
  later day than the 20th of February 2026.
\<close>

definition state_after_three :: "string \<Rightarrow> agg" where
  "state_after_three d =
     \<lparr> agg.totals = \<lparr> calls = 3, inputTokens = Num 3, outputTokens = Num 0, totalTokens = Num 0,
                  cost = Num (21/4), cacheRead = Num 0, cacheWrite = Num 0 \<rparr>,
       byDay = [(''2026-02-20'',
                 \<lparr> calls = 2, inputTokens = Num 3, outputTokens = Num 0, totalTokens = Num 0,
                   cost = Num (15/4), date = ''2026-02-20'' \<rparr>),
                (d,
                 \<lparr> calls = 1, inputTokens = Num 0, outputTokens = Num 0, totalTokens = Num 0,
                   cost = Num (3/2), date = d \<rparr>)],
       byModel = [(JString ''anthropic/claude-3'',
                   \<lparr> calls = 1, inputTokens = Num 3, outputTokens = Num 0, totalTokens = Num 0,
                     cost = Num (3/2), model = JString ''anthropic/claude-3'',
                     provider = ''Anthropic'' \<rparr>),
                  (JString ''openai/gpt-4'',
                   \<lparr> calls = 1, inputTokens = Num 0, outputTokens = Num 0, totalTokens = Num 0,
                     cost = Num (9/4), model = JString ''openai/gpt-4'',
                     provider = ''OpenAI'' \<rparr>),
                  (JString ''xai/grok-2'',
                   \<lparr> calls = 1, inputTokens = Num 0, outputTokens = Num 0, totalTokens = Num 0,
                     cost = Num (3/2), model = JString ''xai/grok-2'',
                     provider = ''xAI'' \<rparr>)],
       ticks = 1 \<rparr>"

definition payload_at :: "string \<Rightarrow> string \<Rightarrow> MetricsPayload" where
  "payload_at now d =
     \<lparr> generatedAt = now,
       source = ''openclaw session jsonl usage records'',
       totals = \<lparr> calls = 3, inputTokens = Num 3, outputTokens = Num 0, totalTokens = Num 0,
                  cost = Num (21/4), cacheRead = Num 0, cacheWrite = Num 0 \<rparr>,
       daily = [\<lparr> calls = 2, inputTokens = Num 3, outputTokens = Num 0, totalTokens = Num 0,
                  cost = Num (15/4), date = ''2026-02-20'' \<rparr>,
                \<lparr> calls = 1, inputTokens = Num 0, outputTokens = Num 0, totalTokens = Num 0,
                  cost = Num (3/2), date = d \<rparr>],
       models = [\<lparr> calls = 1, inputTokens = Num 0, outputTokens = Num 0, totalTokens = Num 0,
                   cost = Num (9/4), model = JString ''openai/gpt-4'', provider = ''OpenAI'' \<rparr>,
                 \<lparr> calls = 1, inputTokens = Num 3, outputTokens = Num 0, totalTokens = Num 0,
                   cost = Num (3/2), model = JString ''anthropic/claude-3'',
                   provider = ''Anthropic'' \<rparr>,
                 \<lparr> calls = 1, inputTokens = Num 0, outputTokens = Num 0, totalTokens = Num 0,
                   cost = Num (3/2), model = JString ''xai/grok-2'', provider = ''xAI'' \<rparr>] \<rparr>"

definition sample_payload :: MetricsPayload where
  "sample_payload = payload_at ''2026-03-01T00:00:00.000Z'' ''2026-03-01''"

definition next_day_payload :: MetricsPayload where
  "next_day_payload = payload_at ''2026-03-02T00:00:00.000Z'' ''2026-03-02''"

text \<open>The accumulators and the payload of the run in \<open>nan_world\<close>.\<close>

definition nan_state :: agg where
  "nan_state =
     \<lparr> agg.totals = \<lparr> calls = 3, inputTokens = Num 3, outputTokens = Num 0, totalTokens = Num 0,
                  cost = NaN, cacheRead = Num 0, cacheWrite = Num 0 \<rparr>,
       byDay = [(''2026-02-20'',
                 \<lparr> calls = 3, inputTokens = Num 3, outputTokens = Num 0, totalTokens = Num 0,
                   cost = NaN, date = ''2026-02-20'' \<rparr>)],
       byModel = [(JString ''anthropic/claude-3'',
                   \<lparr> calls = 1, inputTokens = Num 3, outputTokens = Num 0, totalTokens = Num 0,
                     cost = Num (3/2), model = JString ''anthropic/claude-3'',
                     provider = ''Anthropic'' \<rparr>),
                  (JString ''local/llama'',
                   \<lparr> calls = 1, inputTokens = Num 0, outputTokens = Num 0, totalTokens = Num 0,
                     cost = NaN, model = JString ''local/llama'', provider = ''Other'' \<rparr>),
                  (JString ''openai/gpt-4'',
                   \<lparr> calls = 1, inputTokens = Num 0, outputTokens = Num 0, totalTokens = Num 0,
                     cost = Num (9/4), model = JString ''openai/gpt-4'',
                     provider = ''OpenAI'' \<rparr>)],
       ticks = 0 \<rparr>"

definition nan_payload :: MetricsPayload where
  "nan_payload =
     \<lparr> generatedAt = ''2026-03-01T00:00:00.000Z'',
       source = ''openclaw session jsonl usage records'',
       totals = \<lparr> calls = 3, inputTokens = Num 3, outputTokens = Num 0, totalTokens = Num 0,
                  cost = NaN, cacheRead = Num 0, cacheWrite = Num 0 \<rparr>,
       daily = [\<lparr> calls = 3, inputTokens = Num 3, outputTokens = Num 0, totalTokens = Num 0,
                  cost = NaN, date = ''2026-02-20'' \<rparr>],
       models = [\<lparr> calls = 1, inputTokens = Num 3, outputTokens = Num 0, totalTokens = Num 0,
                   cost = Num (3/2), model = JString ''anthropic/claude-3'',
                   provider = ''Anthropic'' \<rparr>,
                 \<lparr> calls = 1, inputTokens = Num 0, outputTokens = Num 0, totalTokens = Num 0,
                   cost = NaN, model = JString ''local/llama'', provider = ''Other'' \<rparr>,
                 \<lparr> calls = 1, inputTokens = Num 0, outputTokens = Num 0, totalTokens = Num 0,
                   cost = Num (9/4), model = JString ''openai/gpt-4'', provider = ''OpenAI'' \<rparr>] \<rparr>"

section \<open>Basic facts about the loop body\<close>

lemma truthy_not_nullish: "truthy v \<Longrightarrow> \<not> nullish v"
  by (cases v) auto

lemma get_truthy [simp]: "truthy v \<Longrightarrow> get v k = Some (property v k)"
  by (simp add: get_def truthy_not_nullish)

lemma property_nullish [simp]: "nullish v \<Longrightarrow> property v k = JUndefined"
  by (cases v) auto

lemma opt_get_property: "opt_get v k = property v k"
  by (cases v) (auto simp: opt_get_def)

lemma truthy_opt_get: "truthy (opt_get v k) \<Longrightarrow> truthy v"
  by (cases v) (auto simp: opt_get_def)

lemma included_msg: "included e \<Longrightarrow> truthy (msg_of e) \<and> truthy e"
  unfolding included_def usage_of_def msg_of_def
  by (blast dest: truthy_opt_get)

lemma processEvent_excluded: "\<not> included e \<Longrightarrow> processEvent h c st e = Some st"
  by (auto simp: processEvent_def included_def usage_of_def msg_of_def Let_def)

lemma processEvent_included:
  assumes "included e"
  shows "processEvent h c st e =
     do {
          (ts, n) \<leftarrow> resolve_ts c (ticks st) e (msg_of e);
          s \<leftarrow> js_String h ts;
          mdl \<leftarrow> resolve_model (msg_of e);
          prov \<leftarrow> providerFromModel mdl;
          inp \<leftarrow> usage_number h (usage_of e) ''input'';
          out \<leftarrow> usage_number h (usage_of e) ''output'';
          cr \<leftarrow> usage_number h (usage_of e) ''cacheRead'';
          cw \<leftarrow> usage_number h (usage_of e) ''cacheWrite'';
          tot \<leftarrow> usage_number h (usage_of e) ''totalTokens'';
          cst \<leftarrow> usage_number h (property (usage_of e) ''cost'') ''total'';
          Some \<lparr> agg.totals = (add_usage inp out tot cst (agg.totals st))
                \<lparr> cacheRead := js_add (cacheRead (agg.totals st)) cr,
                  cacheWrite := js_add (cacheWrite (agg.totals st)) cw \<rparr>,
                 byDay = AList.update (take 10 s) (add_usage inp out tot cst (day_entry st (take 10 s))) (byDay st),
                 byModel = AList.update mdl (add_usage inp out tot cst (model_entry st mdl prov)) (byModel st),
                 ticks = n \<rparr>
     }"
  using assms
  by (simp add: processEvent_def included_def usage_of_def msg_of_def Let_def)


lemma processEvent_includedE:
  assumes "included e" and "processEvent h c st e = Some st'"
  obtains ts n s mdl prov inp out cr cw tot cst where
    "resolve_ts c (ticks st) e (msg_of e) = Some (ts, n)"
    "js_String h ts = Some s"
    "resolve_model (msg_of e) = Some mdl"
    "providerFromModel mdl = Some prov"
    "usage_number h (usage_of e) ''input'' = Some inp"
    "usage_number h (usage_of e) ''output'' = Some out"
    "usage_number h (usage_of e) ''cacheRead'' = Some cr"
    "usage_number h (usage_of e) ''cacheWrite'' = Some cw"
    "usage_number h (usage_of e) ''totalTokens'' = Some tot"
    "usage_number h (property (usage_of e) ''cost'') ''total'' = Some cst"
    "agg.totals st' = (add_usage inp out tot cst (agg.totals st))
                \<lparr> cacheRead := js_add (cacheRead (agg.totals st)) cr,
                  cacheWrite := js_add (cacheWrite (agg.totals st)) cw \<rparr>"
    "byDay st' = AList.update (take 10 s)
                   (add_usage inp out tot cst (day_entry st (take 10 s))) (byDay st)"
    "byModel st' = AList.update mdl
                   (add_usage inp out tot cst (model_entry st mdl prov)) (byModel st)"
    "ticks st' = n"
  using assms(2) unfolding processEvent_included [OF assms(1)]
  by (auto simp: bind_eq_Some_conv)

text \<open>
  On an event that passed the two tests, the timestamp and the model that the body
  resolves are the ones the claims name.
\<close>

lemma resolve_ts_eq:
  "truthy e \<Longrightarrow> truthy (msg_of e) \<Longrightarrow>
   resolve_ts clk n e (msg_of e) =
     Some (chosen_timestamp (clk n) e, if has_timestamp e then n else Suc n)"
  by (simp add: resolve_ts_def chosen_timestamp_def has_timestamp_def msg_of_def opt_get_property)

lemma resolve_model_eq:
  "truthy (msg_of e) \<Longrightarrow> resolve_model (msg_of e) = Some (chosen_model e)"
  by (simp add: resolve_model_def chosen_model_def msg_of_def opt_get_property js_or_def Let_def)

section \<open>Properties of the provider classifier\<close>

lemma codex_prefix_not_openai: "prefix ''openai-codex/'' m \<Longrightarrow> \<not> prefix ''openai/'' m"
  by (auto simp: prefix_def)

text \<open>
  Claim C4. On every string the classifier returns (it never throws), its result is the
  label the rule list of the specification gives, first match wins with the
  \<^verbatim>\<open>openai-codex/\<close> rule before the \<^verbatim>\<open>openai/\<close> rule, and that label is one of the six.
  The script tests \<^verbatim>\<open>openai/\<close> first; no string starts with both prefixes (they differ
  at the seventh character), so the two orders give the same function.
\<close>

theorem providerFromModel_total_rules:
  "providerFromModel (JString m) = Some (provider_rules_spec m) \<and>
   provider_rules_spec m \<in>
     {''Anthropic'', ''OpenAI Codex'', ''OpenAI'', ''Google'', ''xAI'', ''Other''}"
  unfolding providerFromModel_def provider_rules_spec_def
  using codex_prefix_not_openai [of m] by simp

theorem providerFromModel_total_rules_witness:
  "providerFromModel (JString ''openai-codex/gpt-5'') = Some ''OpenAI Codex''"
proof -
  have "providerFromModel (JString ''openai-codex/gpt-5'') =
          Some (provider_rules_spec ''openai-codex/gpt-5'')"
    using providerFromModel_total_rules [of "''openai-codex/gpt-5''"] by (rule conjunct1)
  moreover have "provider_rules_spec ''openai-codex/gpt-5'' = ''OpenAI Codex''"
    by (simp add: provider_rules_spec_def sublist_Cons_right)
  ultimately show ?thesis by simp
qed

section \<open>Evaluating the loop body on the samples\<close>

lemmas eval_defs =
  processEvent_def opt_get_def get_def resolve_ts_def resolve_model_def providerFromModel_def
  usage_number_def js_or_def add_usage_def day_entry_def model_entry_def Let_def
  sublist_Cons_right

lemma included_anthropic: "included event_anthropic"
  by (simp add: included_def usage_of_def msg_of_def opt_get_def event_anthropic_def)

lemma processEvent_anthropic:
  "processEvent sample_host clk init_agg event_anthropic = Some state_after_anthropic"
  by (simp add: eval_defs event_anthropic_def init_agg_def state_after_anthropic_def
      sample_host_def)

lemma included_modelId: "included event_modelId"
  by (simp add: included_def usage_of_def msg_of_def opt_get_def event_modelId_def)

lemma processEvent_modelId:
  "processEvent sample_host sample_clock init_agg event_modelId = Some state_after_modelId"
  by (simp add: eval_defs event_modelId_def init_agg_def state_after_modelId_def sample_host_def)

section \<open>Which events are included (claim C8)\<close>

lemma included_iff: "included event = usage_object_with_truthy_cost event"
  unfolding included_def usage_of_def msg_of_def opt_get_property
    usage_object_with_truthy_cost_def
  by (cases "property (property event ''message'') ''usage''") auto

lemma processEvent_calls:
  assumes "included e" and "processEvent h c st e = Some st'"
  shows "calls (agg.totals st') = calls (agg.totals st) + 1"
proof -
  from assms obtain inp out tot cst cr cw where
    t: "agg.totals st' = (add_usage inp out tot cst (agg.totals st))
                \<lparr> cacheRead := js_add (cacheRead (agg.totals st)) cr,
                  cacheWrite := js_add (cacheWrite (agg.totals st)) cw \<rparr>"
    by (elim processEvent_includedE)
  show ?thesis by (simp add: t add_usage_def)
qed

lemma processEvent_returns_iff:
  assumes "included e"
  shows "(\<exists>st'. processEvent h c st e = Some st') \<longleftrightarrow>
         conversions_return h (c (ticks st)) e"
proof -
  note tr = included_msg [OF assms]
  from tr have rt: "resolve_ts c (ticks st) e (msg_of e) =
      Some (chosen_timestamp (c (ticks st)) e, if has_timestamp e then ticks st else Suc (ticks st))"
    by (simp add: resolve_ts_eq)
  from tr have rm: "resolve_model (msg_of e) = Some (chosen_model e)"
    by (simp add: resolve_model_eq)
  show ?thesis
    unfolding processEvent_included [OF assms] rt rm conversions_return_def
    by (auto simp: bind_eq_Some_conv)
qed

lemma conversions_return_anthropic:
  "conversions_return sample_host (sample_clock 0) event_anthropic"
  by (simp add: conversions_return_def chosen_timestamp_def chosen_model_def usage_of_def
      msg_of_def opt_get_def usage_number_def get_def js_or_def providerFromModel_def
      event_anthropic_def)

lemma conversions_throw_numeric_model:
  "\<not> conversions_return sample_host (sample_clock 0) event_numeric_model"
  by (simp add: conversions_return_def chosen_model_def providerFromModel_def
      event_numeric_model_def)

text \<open>
  Claim C8. The loop body takes an event into the aggregation exactly when
  \<^verbatim>\<open>event.message.usage\<close> is an object whose \<^verbatim>\<open>cost\<close> is truthy. For such an
  event the body returns exactly when none of its conversions throws, and a body that
  returns has counted one more call; for any other event the body returns the accumulators
  as they were. A \<^verbatim>\<open>usage\<close> at the top level of the event, or a \<^verbatim>\<open>cost\<close> of \<open>0\<close>
  or \<^verbatim>\<open>null\<close>, leaves the event out.
\<close>

theorem event_inclusion:
  "(usage_object_with_truthy_cost event \<longrightarrow>
      (\<forall>st'. processEvent h clk st event = Some st' \<longrightarrow>
         calls (agg.totals st') = calls (agg.totals st) + 1) \<and>
      ((\<exists>st'. processEvent h clk st event = Some st') \<longleftrightarrow>
         conversions_return h (clk (ticks st)) event)) \<and>
   (\<not> usage_object_with_truthy_cost event \<longrightarrow> processEvent h clk st event = Some st)"
proof (intro conjI impI allI)
  fix st'
  assume "usage_object_with_truthy_cost event" and "processEvent h clk st event = Some st'"
  then show "calls (agg.totals st') = calls (agg.totals st) + 1"
    unfolding included_iff [symmetric] by (rule processEvent_calls)
next
  assume "usage_object_with_truthy_cost event"
  then show "(\<exists>st'. processEvent h clk st event = Some st') \<longleftrightarrow>
         conversions_return h (clk (ticks st)) event"
    unfolding included_iff [symmetric] by (rule processEvent_returns_iff)
next
  assume "\<not> usage_object_with_truthy_cost event"
  then show "processEvent h clk st event = Some st"
    unfolding included_iff [symmetric] by (rule processEvent_excluded)
qed

theorem event_inclusion_witness:
  "processEvent sample_host sample_clock init_agg
     (JObject [(''usage'', JObject [(''cost'', JObject [(''total'', JNumber 1)])])]) =
     Some init_agg \<and>
   processEvent sample_host sample_clock init_agg
     (JObject [(''message'', JObject [(''usage'', JObject [(''cost'', JNumber 0)])])]) =
     Some init_agg \<and>
   processEvent sample_host sample_clock init_agg
     (JObject [(''message'', JObject [(''usage'', JObject [(''cost'', JNull)])])]) =
     Some init_agg \<and>
   usage_object_with_truthy_cost event_anthropic \<and>
   conversions_return sample_host (sample_clock 0) event_anthropic \<and>
   processEvent sample_host sample_clock init_agg event_anthropic = Some state_after_anthropic \<and>
   calls (agg.totals state_after_anthropic) = calls (agg.totals init_agg) + 1 \<and>
   calls (agg.totals state_after_anthropic) = 1 \<and>
   usage_object_with_truthy_cost event_numeric_model \<and>
   processEvent sample_host sample_clock init_agg event_numeric_model = None"
proof -
  let ?top = "JObject [(''usage'', JObject [(''cost'', JObject [(''total'', JNumber 1)])])]"
  let ?zero = "JObject [(''message'', JObject [(''usage'', JObject [(''cost'', JNumber 0)])])]"
  let ?null = "JObject [(''message'', JObject [(''usage'', JObject [(''cost'', JNull)])])]"
  have "\<not> usage_object_with_truthy_cost ?top"
    by (simp add: usage_object_with_truthy_cost_def)
  with event_inclusion [of ?top sample_host sample_clock init_agg]
  have 1: "processEvent sample_host sample_clock init_agg ?top = Some init_agg" by blast
  have "\<not> usage_object_with_truthy_cost ?zero"
    by (simp add: usage_object_with_truthy_cost_def)
  with event_inclusion [of ?zero sample_host sample_clock init_agg]
  have 2: "processEvent sample_host sample_clock init_agg ?zero = Some init_agg" by blast
  have "\<not> usage_object_with_truthy_cost ?null"
    by (simp add: usage_object_with_truthy_cost_def)
  with event_inclusion [of ?null sample_host sample_clock init_agg]
  have 3: "processEvent sample_host sample_clock init_agg ?null = Some init_agg" by blast
  have 4: "usage_object_with_truthy_cost event_anthropic"
    by (simp add: usage_object_with_truthy_cost_def event_anthropic_def)
  have t0: "ticks init_agg = 0" by (simp add: init_agg_def)
  note a = event_inclusion [of event_anthropic sample_host sample_clock init_agg]
  from a 4 conversions_return_anthropic
  obtain st' where run: "processEvent sample_host sample_clock init_agg event_anthropic = Some st'"
    unfolding t0 by blast
  with a 4 have c: "calls (agg.totals st') = calls (agg.totals init_agg) + 1" by blast
  from run have st': "st' = state_after_anthropic" by (simp add: processEvent_anthropic)
  from c have 5: "calls (agg.totals state_after_anthropic) = calls (agg.totals init_agg) + 1"
    unfolding st' .
  then have 6: "calls (agg.totals state_after_anthropic) = 1" by (simp add: init_agg_def)
  from run have 7: "processEvent sample_host sample_clock init_agg event_anthropic =
      Some state_after_anthropic"
    unfolding st' .
  have 8: "usage_object_with_truthy_cost event_numeric_model"
    by (simp add: usage_object_with_truthy_cost_def event_numeric_model_def)
  from event_inclusion [of event_numeric_model sample_host sample_clock init_agg] 8
    conversions_throw_numeric_model
  have "\<not> (\<exists>st'. processEvent sample_host sample_clock init_agg event_numeric_model = Some st')"
    unfolding t0 by blast
  then have 9: "processEvent sample_host sample_clock init_agg event_numeric_model = None"
    by simp
  from 1 2 3 4 conversions_return_anthropic 7 5 6 8 9 show ?thesis by (intro conjI)
qed

section \<open>The model key (claim C9)\<close>

lemma providerFromModel_SomeD:
  "providerFromModel v = Some p \<Longrightarrow> v = JUndefined \<or> (\<exists>s. v = JString s)"
  by (cases v) (simp_all add: providerFromModel_def)

lemma truthy_chosen_model: "truthy (chosen_model e)"
  by (simp add: chosen_model_def Let_def)

lemma map_of_update_same: "map_of (AList.update k v al) k = Some v"
  by (simp add: update_conv')

lemma map_of_update_other: "k' \<noteq> k \<Longrightarrow> map_of (AList.update k v al) k' = map_of al k'"
  by (simp add: update_conv')

lemma processEvent_model:
  assumes "included e" and "processEvent h c st e = Some st'"
  obtains s prov inp out tot cst where
    "chosen_model e = JString s"
    "providerFromModel (JString s) = Some prov"
    "byModel st' = AList.update (JString s)
        (add_usage inp out tot cst (model_entry st (JString s) prov)) (byModel st)"
proof -
  from assms obtain mdl prov inp out tot cst where
    rm: "resolve_model (msg_of e) = Some mdl" and
    pm: "providerFromModel mdl = Some prov" and
    bm: "byModel st' =
           AList.update mdl (add_usage inp out tot cst (model_entry st mdl prov)) (byModel st)"
    by (elim processEvent_includedE)
  from assms(1) rm have mdl: "mdl = chosen_model e"
    using included_msg [of e] by (simp add: resolve_model_eq)
  with pm truthy_chosen_model [of e] obtain s where s: "mdl = JString s"
    by (auto dest: providerFromModel_SomeD)
  from mdl s pm bm that [of s prov inp out tot cst] show thesis by simp
qed

text \<open>
  Claim C9. For an included event whose loop body returns, the key under which the event
  is grouped is \<^verbatim>\<open>message.model\<close> if truthy, otherwise \<^verbatim>\<open>message.modelId\<close> if truthy,
  otherwise \<^verbatim>\<open>"unknown"\<close>. It is a string, the classifier is applied to it, the entry
  under that key counts one more call (from 0 and with the classifier's label for a new
  key), and no other entry of \<^verbatim>\<open>byModel\<close> changes.
\<close>

theorem model_key_resolution:
  assumes "included event"
  shows "resolve_model (msg_of event) = Some (chosen_model event) \<and>
         (\<forall>st'. processEvent h clk st event = Some st' \<longrightarrow>
           (\<exists>s prov m'.
              chosen_model event = JString s \<and>
              providerFromModel (JString s) = Some prov \<and>
              map_of (byModel st') (JString s) = Some m' \<and>
              calls m' = calls (model_entry st (JString s) prov) + 1 \<and>
              model m' = model (model_entry st (JString s) prov) \<and>
              provider m' = provider (model_entry st (JString s) prov) \<and>
              (\<forall>k. k \<noteq> JString s \<longrightarrow> map_of (byModel st') k = map_of (byModel st) k)))"
proof (intro conjI allI impI)
  from assms show "resolve_model (msg_of event) = Some (chosen_model event)"
    using included_msg [of event] by (simp add: resolve_model_eq)
next
  fix st'
  assume "processEvent h clk st event = Some st'"
  with assms obtain s prov inp out tot cst where
    cm: "chosen_model event = JString s" and
    pm: "providerFromModel (JString s) = Some prov" and
    bm: "byModel st' = AList.update (JString s)
           (add_usage inp out tot cst (model_entry st (JString s) prov)) (byModel st)"
    by (rule processEvent_model)
  let ?old = "model_entry st (JString s) prov"
  have "map_of (byModel st') (JString s) = Some (add_usage inp out tot cst ?old)"
    by (simp add: bm map_of_update_same)
  moreover have "\<forall>k. k \<noteq> JString s \<longrightarrow> map_of (byModel st') k = map_of (byModel st) k"
    by (simp add: bm map_of_update_other)
  moreover have "calls (add_usage inp out tot cst ?old) = calls ?old + 1"
    "model (add_usage inp out tot cst ?old) = model ?old"
    "provider (add_usage inp out tot cst ?old) = provider ?old"
    by (simp_all add: add_usage_def)
  ultimately show "\<exists>s prov m'.
              chosen_model event = JString s \<and>
              providerFromModel (JString s) = Some prov \<and>
              map_of (byModel st') (JString s) = Some m' \<and>
              calls m' = calls (model_entry st (JString s) prov) + 1 \<and>
              model m' = model (model_entry st (JString s) prov) \<and>
              provider m' = provider (model_entry st (JString s) prov) \<and>
              (\<forall>k. k \<noteq> JString s \<longrightarrow> map_of (byModel st') k = map_of (byModel st) k)"
    using cm pm
    by (intro exI [of _ s] exI [of _ prov] exI [of _ "add_usage inp out tot cst ?old"]) simp
qed

theorem model_key_resolution_witness:
  "included event_modelId \<and>
   processEvent sample_host sample_clock init_agg event_modelId = Some state_after_modelId \<and>
   chosen_model event_modelId = JString ''xai/grok-2'' \<and>
   (\<exists>m'. map_of (byModel state_after_modelId) (JString ''xai/grok-2'') = Some m' \<and>
         calls m' = 1 \<and> model m' = JString ''xai/grok-2'' \<and> provider m' = ''xAI'')"
proof -
  have cm: "chosen_model event_modelId = JString ''xai/grok-2''"
    by (simp add: chosen_model_def event_modelId_def)
  from model_key_resolution [OF included_modelId, of sample_host sample_clock init_agg]
    processEvent_modelId
  obtain s prov m' where
    "chosen_model event_modelId = JString s"
    "providerFromModel (JString s) = Some prov"
    "map_of (byModel state_after_modelId) (JString s) = Some m'"
    "calls m' = calls (model_entry init_agg (JString s) prov) + 1"
    "model m' = model (model_entry init_agg (JString s) prov)"
    "provider m' = provider (model_entry init_agg (JString s) prov)"
    by blast
  with cm have
    "providerFromModel (JString ''xai/grok-2'') = Some prov"
    "map_of (byModel state_after_modelId) (JString ''xai/grok-2'') = Some m'"
    "calls m' = calls (model_entry init_agg (JString ''xai/grok-2'') prov) + 1"
    "model m' = model (model_entry init_agg (JString ''xai/grok-2'') prov)"
    "provider m' = provider (model_entry init_agg (JString ''xai/grok-2'') prov)"
    by simp_all
  then have "map_of (byModel state_after_modelId) (JString ''xai/grok-2'') = Some m' \<and>
         calls m' = 1 \<and> model m' = JString ''xai/grok-2'' \<and> provider m' = ''xAI''"
    by (simp add: model_entry_def init_agg_def providerFromModel_def sublist_Cons_right)
  then show ?thesis
    using included_modelId processEvent_modelId cm by blast
qed

section \<open>The day key (claim C10)\<close>

lemma processEvent_day:
  assumes "included e" and "processEvent h clk st e = Some st'"
  obtains s inp out tot cst where
    "js_String h (chosen_timestamp (clk (ticks st)) e) = Some s"
    "byDay st' = AList.update (take 10 s)
        (add_usage inp out tot cst (day_entry st (take 10 s))) (byDay st)"
    "ticks st' = (if has_timestamp e then ticks st else Suc (ticks st))"
proof -
  from assms obtain ts n s inp out tot cst where
    rt: "resolve_ts clk (ticks st) e (msg_of e) = Some (ts, n)" and
    js: "js_String h ts = Some s" and
    bd: "byDay st' = AList.update (take 10 s)
           (add_usage inp out tot cst (day_entry st (take 10 s))) (byDay st)" and
    tk: "ticks st' = n"
    by (elim processEvent_includedE)
  from assms(1) rt have "ts = chosen_timestamp (clk (ticks st)) e"
    and "n = (if has_timestamp e then ticks st else Suc (ticks st))"
    using included_msg [of e] by (simp_all add: resolve_ts_eq)
  with js bd tk that [of s inp out tot cst] show thesis by simp
qed

text \<open>
  Claim C10. For an included event whose loop body returns, the key under which the
  event is grouped in \<^verbatim>\<open>byDay\<close> is the first 10 characters of the string form of the
  resolved timestamp: \<^verbatim>\<open>event.timestamp\<close> if truthy, otherwise \<^verbatim>\<open>message.timestamp\<close>
  if truthy (an empty string is falsy and falls through), otherwise the reading of the
  clock at that moment. The entry under that key counts one more call, and no other
  entry of \<^verbatim>\<open>byDay\<close> changes.
\<close>

theorem day_key_resolution:
  assumes "included event"
  shows "resolve_ts clk (ticks st) event (msg_of event) =
           Some (chosen_timestamp (clk (ticks st)) event,
                 if has_timestamp event then ticks st else Suc (ticks st)) \<and>
         (\<forall>st'. processEvent h clk st event = Some st' \<longrightarrow>
           (\<exists>s d'.
              js_String h (chosen_timestamp (clk (ticks st)) event) = Some s \<and>
              map_of (byDay st') (take 10 s) = Some d' \<and>
              calls d' = calls (day_entry st (take 10 s)) + 1 \<and>
              date d' = date (day_entry st (take 10 s)) \<and>
              (\<forall>k. k \<noteq> take 10 s \<longrightarrow> map_of (byDay st') k = map_of (byDay st) k)))"
proof (intro conjI allI impI)
  from assms show "resolve_ts clk (ticks st) event (msg_of event) =
           Some (chosen_timestamp (clk (ticks st)) event,
                 if has_timestamp event then ticks st else Suc (ticks st))"
    using included_msg [of event] by (simp add: resolve_ts_eq)
next
  fix st'
  assume "processEvent h clk st event = Some st'"
  with assms obtain s inp out tot cst where
    js: "js_String h (chosen_timestamp (clk (ticks st)) event) = Some s" and
    bd: "byDay st' = AList.update (take 10 s)
           (add_usage inp out tot cst (day_entry st (take 10 s))) (byDay st)"
    by (rule processEvent_day)
  let ?old = "day_entry st (take 10 s)"
  have "map_of (byDay st') (take 10 s) = Some (add_usage inp out tot cst ?old)"
    by (simp add: bd map_of_update_same)
  moreover have "\<forall>k. k \<noteq> take 10 s \<longrightarrow> map_of (byDay st') k = map_of (byDay st) k"
    by (simp add: bd map_of_update_other)
  moreover have "calls (add_usage inp out tot cst ?old) = calls ?old + 1"
    "date (add_usage inp out tot cst ?old) = date ?old"
    by (simp_all add: add_usage_def)
  ultimately show "\<exists>s d'.
              js_String h (chosen_timestamp (clk (ticks st)) event) = Some s \<and>
              map_of (byDay st') (take 10 s) = Some d' \<and>
              calls d' = calls (day_entry st (take 10 s)) + 1 \<and>
              date d' = date (day_entry st (take 10 s)) \<and>
              (\<forall>k. k \<noteq> take 10 s \<longrightarrow> map_of (byDay st') k = map_of (byDay st) k)"
    using js
    by (intro exI [of _ s] exI [of _ "add_usage inp out tot cst ?old"]) simp
qed

theorem day_key_resolution_witness:
  "included event_modelId \<and>
   processEvent sample_host sample_clock init_agg event_modelId = Some state_after_modelId \<and>
   property event_modelId ''timestamp'' = JString [] \<and>
   chosen_timestamp (sample_clock 0) event_modelId = JString ''2026-02-21T08:00:00Z'' \<and>
   (\<exists>d'. map_of (byDay state_after_modelId) ''2026-02-21'' = Some d' \<and>
         calls d' = 1 \<and> date d' = ''2026-02-21'')"
proof -
  have ct: "chosen_timestamp (sample_clock 0) event_modelId = JString ''2026-02-21T08:00:00Z''"
    and pt: "property event_modelId ''timestamp'' = JString []"
    by (simp_all add: chosen_timestamp_def event_modelId_def)
  from day_key_resolution [OF included_modelId, of sample_clock init_agg sample_host]
    processEvent_modelId
  obtain s d' where
    "js_String sample_host (chosen_timestamp (sample_clock (ticks init_agg)) event_modelId) =
       Some s"
    "map_of (byDay state_after_modelId) (take 10 s) = Some d'"
    "calls d' = calls (day_entry init_agg (take 10 s)) + 1"
    "date d' = date (day_entry init_agg (take 10 s))"
    by blast
  with ct have "map_of (byDay state_after_modelId) ''2026-02-21'' = Some d' \<and>
         calls d' = 1 \<and> date d' = ''2026-02-21''"
    by (auto simp: init_agg_def day_entry_def)
  then show ?thesis
    using included_modelId processEvent_modelId ct pt by blast
qed

section \<open>The record reader (claim C6)\<close>

lemma readJsonl_loop_eq:
  "readJsonl_loop h rows lines =
     rows @ List.map_filter (JSON_parse h) (filter (\<lambda>l. l \<noteq> []) (map trim lines))"
proof (induction lines arbitrary: rows)
  case Nil
  show ?case by (simp add: List.map_filter_simps)
next
  case (Cons line lines)
  show ?case
  proof (cases "trim line = []")
    case True
    then show ?thesis by (simp add: Cons.IH)
  next
    case False
    then show ?thesis
      by (cases "JSON_parse h (trim line)") (simp_all add: Cons.IH List.map_filter_simps)
  qed
qed

lemma sample_lines:
  "split_nl (line_anthropic @ [CHR 0x0A] @ ''not json'' @ [CHR 0x0A] @ line_openai @ [CHR 0x0A]) =
     [line_anthropic, ''not json'', line_openai, []]"
  by (simp add: line_anthropic_def line_openai_def)

lemma sample_trims:
  "trim line_anthropic = line_anthropic" "trim line_openai = line_openai"
  "trim ''not json'' = ''not json''" "trim [] = []"
  by (simp_all add: trim_def isWhiteSpace_def line_anthropic_def line_openai_def)

lemma sample_parses:
  "JSON_parse sample_host line_anthropic = Some event_anthropic"
  "JSON_parse sample_host line_openai = Some event_openai"
  "JSON_parse sample_host ''not json'' = None"
  by (simp_all add: sample_host_def line_anthropic_def line_openai_def line_no_timestamp_def
      line_nan_cost_def)

lemma readJsonl_spec_sample:
  "readJsonl_spec sample_host
     (line_anthropic @ [CHR 0x0A] @ ''not json'' @ [CHR 0x0A] @ line_openai @ [CHR 0x0A]) =
     [event_anthropic, event_openai]"
proof -
  have ne: "line_anthropic \<noteq> []" "line_openai \<noteq> []"
    by (simp_all add: line_anthropic_def line_openai_def)
  show ?thesis
    unfolding readJsonl_spec_def sample_lines
    by (simp add: sample_trims ne List.map_filter_simps sample_parses)
qed

text \<open>
  Claim C6. On every file text the reader returns exactly the parsed values of the lines
  that are non-empty after trimming and that parse, in order: a line that fails to parse
  is dropped, a line that is empty after trimming is left out before any parse (the
  equation holds whatever \<^verbatim>\<open>JSON.parse\<close> would make of the empty string). The outer
  loop hands exactly these values to the aggregation.
\<close>

theorem readJsonl_yields_parsed_lines:
  "readJsonl h content = readJsonl_spec h content \<and>
   processFiles h clk st (Some content # files) =
     (case processEvents h clk st (readJsonl_spec h content) of
        None \<Rightarrow> None
      | Some st' \<Rightarrow> processFiles h clk st' files)"
proof -
  have "readJsonl h content = readJsonl_spec h content"
    by (simp add: readJsonl_def readJsonl_spec_def readJsonl_loop_eq)
  then show ?thesis by simp
qed

theorem readJsonl_yields_parsed_lines_witness:
  "readJsonl sample_host
     (line_anthropic @ [CHR 0x0A] @ ''not json'' @ [CHR 0x0A] @ line_openai @ [CHR 0x0A]) =
     [event_anthropic, event_openai]"
proof -
  let ?content = "line_anthropic @ [CHR 0x0A] @ ''not json'' @ [CHR 0x0A] @ line_openai @ [CHR 0x0A]"
  have "readJsonl sample_host ?content = readJsonl_spec sample_host ?content"
    using readJsonl_yields_parsed_lines [of sample_host ?content] by (rule conjunct1)
  then show ?thesis by (simp only: readJsonl_spec_sample)
qed

section \<open>Totals are sums over the included events (claim C3)\<close>

lemma processEvents_calls:
  "processEvents h c st es = Some st' \<Longrightarrow>
   calls (agg.totals st') = calls (agg.totals st) + length (filter included es)"
proof (induction es arbitrary: st)
  case Nil
  then show ?case by simp
next
  case (Cons e es)
  from Cons.prems obtain st1 where
    1: "processEvent h c st e = Some st1" and 2: "processEvents h c st1 es = Some st'"
    by (auto split: option.splits)
  show ?case
  proof (cases "included e")
    case True
    from True 1 have "calls (agg.totals st1) = calls (agg.totals st) + 1"
      by (rule processEvent_calls)
    with Cons.IH [OF 2] True show ?thesis by simp
  next
    case False
    with 1 have "st1 = st" by (simp add: processEvent_excluded)
    with Cons.IH [OF 2] False show ?thesis by simp
  qed
qed

text \<open>
  One induction for all six sums: \<open>sel\<close> reads a field of the accumulators, \<open>val\<close>
  the amount of an event.
\<close>

lemma processEvents_field:
  fixes sel :: "agg \<Rightarrow> jsnum" and val :: "js \<Rightarrow> jsnum option"
  assumes step: "\<And>st e st'. included e \<Longrightarrow> processEvent h c st e = Some st' \<Longrightarrow>
                   \<exists>v. val e = Some v \<and> sel st' = js_add (sel st) v"
    and run: "processEvents h c st es = Some st'"
  shows "\<exists>vs. those (map val (filter included es)) = Some vs \<and>
              sel st' = foldl js_add (sel st) vs"
  using run
proof (induction es arbitrary: st)
  case Nil
  then show ?case by simp
next
  case (Cons e es)
  from Cons.prems obtain st1 where
    1: "processEvent h c st e = Some st1" and 2: "processEvents h c st1 es = Some st'"
    by (auto split: option.splits)
  from Cons.IH [OF 2] obtain vs where
    vs: "those (map val (filter included es)) = Some vs" "sel st' = foldl js_add (sel st1) vs"
    by blast
  show ?case
  proof (cases "included e")
    case True
    from step [OF True 1] obtain v where v: "val e = Some v" "sel st1 = js_add (sel st) v"
      by blast
    from True v vs have "those (map val (filter included (e # es))) = Some (v # vs)"
      and "sel st' = foldl js_add (sel st) (v # vs)"
      by simp_all
    then show ?thesis by blast
  next
    case False
    with 1 have "st1 = st" by (simp add: processEvent_excluded)
    with vs False show ?thesis by simp
  qed
qed

lemma processEvent_totals:
  assumes "included e" and "processEvent h c st e = Some st'"
  shows
    "\<exists>v. usage_number h (usage_of e) ''input'' = Some v \<and>
         inputTokens (agg.totals st') = js_add (inputTokens (agg.totals st)) v"
    "\<exists>v. usage_number h (usage_of e) ''output'' = Some v \<and>
         outputTokens (agg.totals st') = js_add (outputTokens (agg.totals st)) v"
    "\<exists>v. usage_number h (usage_of e) ''cacheRead'' = Some v \<and>
         cacheRead (agg.totals st') = js_add (cacheRead (agg.totals st)) v"
    "\<exists>v. usage_number h (usage_of e) ''cacheWrite'' = Some v \<and>
         cacheWrite (agg.totals st') = js_add (cacheWrite (agg.totals st)) v"
    "\<exists>v. usage_number h (usage_of e) ''totalTokens'' = Some v \<and>
         totalTokens (agg.totals st') = js_add (totalTokens (agg.totals st)) v"
    "\<exists>v. usage_number h (property (usage_of e) ''cost'') ''total'' = Some v \<and>
         cost (agg.totals st') = js_add (cost (agg.totals st)) v"
proof -
  from assms obtain inp out cr cw tot cst where
    n: "usage_number h (usage_of e) ''input'' = Some inp"
       "usage_number h (usage_of e) ''output'' = Some out"
       "usage_number h (usage_of e) ''cacheRead'' = Some cr"
       "usage_number h (usage_of e) ''cacheWrite'' = Some cw"
       "usage_number h (usage_of e) ''totalTokens'' = Some tot"
       "usage_number h (property (usage_of e) ''cost'') ''total'' = Some cst" and
    t: "agg.totals st' = (add_usage inp out tot cst (agg.totals st))
                \<lparr> cacheRead := js_add (cacheRead (agg.totals st)) cr,
                  cacheWrite := js_add (cacheWrite (agg.totals st)) cw \<rparr>"
    by (elim processEvent_includedE)
  show "\<exists>v. usage_number h (usage_of e) ''input'' = Some v \<and>
         inputTokens (agg.totals st') = js_add (inputTokens (agg.totals st)) v"
    by (simp add: n t add_usage_def)
  show "\<exists>v. usage_number h (usage_of e) ''output'' = Some v \<and>
         outputTokens (agg.totals st') = js_add (outputTokens (agg.totals st)) v"
    by (simp add: n t add_usage_def)
  show "\<exists>v. usage_number h (usage_of e) ''cacheRead'' = Some v \<and>
         cacheRead (agg.totals st') = js_add (cacheRead (agg.totals st)) v"
    by (simp add: n t add_usage_def)
  show "\<exists>v. usage_number h (usage_of e) ''cacheWrite'' = Some v \<and>
         cacheWrite (agg.totals st') = js_add (cacheWrite (agg.totals st)) v"
    by (simp add: n t add_usage_def)
  show "\<exists>v. usage_number h (usage_of e) ''totalTokens'' = Some v \<and>
         totalTokens (agg.totals st') = js_add (totalTokens (agg.totals st)) v"
    by (simp add: n t add_usage_def)
  show "\<exists>v. usage_number h (property (usage_of e) ''cost'') ''total'' = Some v \<and>
         cost (agg.totals st') = js_add (cost (agg.totals st)) v"
    by (simp add: n t add_usage_def)
qed

lemma sum_from_init:
  assumes "\<exists>vs. those (map val (filter included es)) = Some vs \<and> x = foldl js_add (Num 0) vs"
  shows "map_option js_sum (those (map val (filter included es))) = Some x"
  using assms by (auto simp: js_sum_def)

lemma included_openai: "included event_openai"
  by (simp add: included_def usage_of_def msg_of_def opt_get_def event_openai_def)

lemma processEvent_openai:
  "processEvent sample_host clk state_after_anthropic event_openai =
     Some state_after_both"
  by (simp add: eval_defs event_openai_def state_after_anthropic_def state_after_both_def
      sample_host_def)

lemma processEvents_sample:
  "processEvents sample_host clk init_agg [event_anthropic, event_openai] =
     Some state_after_both"
  by (simp add: processEvent_anthropic processEvent_openai)

text \<open>
  Claim C3. When the loop over a list of parsed events returns, \<^verbatim>\<open>totals.calls\<close> is the
  number of included events (those that carry a \<^verbatim>\<open>usage\<close> object in their message and
  in it a \<^verbatim>\<open>cost\<close> that is present and truthy; the others contribute nothing), and
  each of the six number fields of \<^verbatim>\<open>totals\<close> is the sum, from 0 and in order, of the
  amounts the included events have in the corresponding usage field.
\<close>

theorem totals_are_sums:
  assumes "processEvents h clk init_agg events = Some st"
  shows "calls (agg.totals st) = length (filter included events) \<and>
         map_option js_sum (usage_values h ''input'' events) =
           Some (inputTokens (agg.totals st)) \<and>
         map_option js_sum (usage_values h ''output'' events) =
           Some (outputTokens (agg.totals st)) \<and>
         map_option js_sum (usage_values h ''cacheRead'' events) =
           Some (cacheRead (agg.totals st)) \<and>
         map_option js_sum (usage_values h ''cacheWrite'' events) =
           Some (cacheWrite (agg.totals st)) \<and>
         map_option js_sum (usage_values h ''totalTokens'' events) =
           Some (totalTokens (agg.totals st)) \<and>
         map_option js_sum (cost_values h events) = Some (cost (agg.totals st)) \<and>
         filter included events = filter usage_object_with_truthy_cost events"
proof (intro conjI)
  show "filter included events = filter usage_object_with_truthy_cost events"
    by (intro filter_cong) (simp_all add: included_iff)
  show "calls (agg.totals st) = length (filter included events)"
    using processEvents_calls [OF assms] by (simp add: init_agg_def)
  show "map_option js_sum (usage_values h ''input'' events) =
           Some (inputTokens (agg.totals st))"
    unfolding usage_values_def
    using processEvents_field [where sel = "\<lambda>s. inputTokens (agg.totals s)", OF _ assms]
      processEvent_totals(1)
    by (intro sum_from_init) (simp add: init_agg_def)
  show "map_option js_sum (usage_values h ''output'' events) =
           Some (outputTokens (agg.totals st))"
    unfolding usage_values_def
    using processEvents_field [where sel = "\<lambda>s. outputTokens (agg.totals s)", OF _ assms]
      processEvent_totals(2)
    by (intro sum_from_init) (simp add: init_agg_def)
  show "map_option js_sum (usage_values h ''cacheRead'' events) =
           Some (cacheRead (agg.totals st))"
    unfolding usage_values_def
    using processEvents_field [where sel = "\<lambda>s. cacheRead (agg.totals s)", OF _ assms]
      processEvent_totals(3)
    by (intro sum_from_init) (simp add: init_agg_def)
  show "map_option js_sum (usage_values h ''cacheWrite'' events) =
           Some (cacheWrite (agg.totals st))"
    unfolding usage_values_def
    using processEvents_field [where sel = "\<lambda>s. cacheWrite (agg.totals s)", OF _ assms]
      processEvent_totals(4)
    by (intro sum_from_init) (simp add: init_agg_def)
  show "map_option js_sum (usage_values h ''totalTokens'' events) =
           Some (totalTokens (agg.totals st))"
    unfolding usage_values_def
    using processEvents_field [where sel = "\<lambda>s. totalTokens (agg.totals s)", OF _ assms]
      processEvent_totals(5)
    by (intro sum_from_init) (simp add: init_agg_def)
  show "map_option js_sum (cost_values h events) = Some (cost (agg.totals st))"
    unfolding cost_values_def
    using processEvents_field [where sel = "\<lambda>s. cost (agg.totals s)", OF _ assms]
      processEvent_totals(6)
    by (intro sum_from_init) (simp add: init_agg_def)
qed

lemma sample_included: "filter included [event_anthropic, event_openai] = [event_anthropic, event_openai]"
  by (simp add: included_anthropic included_openai)

lemma sample_amounts:
  "usage_number sample_host (usage_of event_anthropic) ''input'' = Some (Num 3)"
  "usage_number sample_host (usage_of event_openai) ''input'' = Some (Num 0)"
  "usage_number sample_host (property (usage_of event_anthropic) ''cost'') ''total'' =
     Some (Num (3/2))"
  "usage_number sample_host (property (usage_of event_openai) ''cost'') ''total'' =
     Some (Num (9/4))"
  by (simp_all add: usage_of_def msg_of_def opt_get_def usage_number_def get_def js_or_def
      event_anthropic_def event_openai_def)

lemma sample_cost_values:
  "cost_values sample_host [event_anthropic, event_openai] = Some [Num (3/2), Num (9/4)]"
  unfolding cost_values_def sample_included by (simp add: sample_amounts)

lemma sample_input_values:
  "usage_values sample_host ''input'' [event_anthropic, event_openai] = Some [Num 3, Num 0]"
  unfolding usage_values_def sample_included by (simp add: sample_amounts)

theorem totals_are_sums_witness:
  "processEvents sample_host sample_clock init_agg [event_anthropic, event_openai] =
     Some state_after_both \<and>
   calls (agg.totals state_after_both) = 2 \<and>
   usage_values sample_host ''input'' [event_anthropic, event_openai] = Some [Num 3, Num 0] \<and>
   inputTokens (agg.totals state_after_both) = Num 3 \<and>
   cost_values sample_host [event_anthropic, event_openai] = Some [Num (3/2), Num (9/4)] \<and>
   cost (agg.totals state_after_both) = Num (15/4)"
proof -
  from totals_are_sums [OF processEvents_sample]
  have "calls (agg.totals state_after_both) =
          length (filter included [event_anthropic, event_openai])"
    and "map_option js_sum (usage_values sample_host ''input'' [event_anthropic, event_openai]) =
          Some (inputTokens (agg.totals state_after_both))"
    and "map_option js_sum (cost_values sample_host [event_anthropic, event_openai]) =
          Some (cost (agg.totals state_after_both))"
    by blast+
  then have "calls (agg.totals state_after_both) = 2"
    and "inputTokens (agg.totals state_after_both) = Num 3"
    and "cost (agg.totals state_after_both) = Num (15/4)"
    unfolding sample_included sample_cost_values sample_input_values
    by (simp_all add: js_sum_def)
  with processEvents_sample sample_cost_values sample_input_values show ?thesis
    by (intro conjI)
qed

section \<open>Coercion of the usage fields (claim C2)\<close>










section \<open>The run as a whole\<close>

lemma processEvents_append:
  "processEvents h c st (xs @ ys) =
     (case processEvents h c st xs of None \<Rightarrow> None | Some st1 \<Rightarrow> processEvents h c st1 ys)"
  by (induction xs arbitrary: st) (simp_all split: option.splits)

lemma processFiles_events:
  "processFiles h c st files = Some st' \<Longrightarrow>
   processEvents h c st (all_events h files) = Some st'"
proof (induction files arbitrary: st)
  case Nil
  then show ?case by (simp add: all_events_def)
next
  case (Cons fl files)
  from Cons.prems obtain content st1 where
    f: "fl = Some content" and
    1: "processEvents h c st (readJsonl h content) = Some st1" and
    2: "processFiles h c st1 files = Some st'"
    by (auto split: option.splits)
  from Cons.IH [OF 2] have "processEvents h c st1 (all_events h files) = Some st'" .
  with 1 f show ?case by (simp add: all_events_def processEvents_append)
qed

lemma no_log_files_iff: "no_log_files w \<longleftrightarrow> session_files w = []"
proof (cases "sessionsDir w")
  case None
  then show ?thesis by (simp add: no_log_files_def session_files_def)
next
  case (Some entries)
  have "list_all (\<lambda>entry. \<not> suffix ''.jsonl'' (fst entry)) entries \<longleftrightarrow>
        filter (\<lambda>(f, c). suffix ''.jsonl'' f) entries = []"
    by (induction entries) auto
  with Some show ?thesis by (simp add: no_log_files_def session_files_def)
qed

lemma main_kept: "no_log_files w \<Longrightarrow> main h w = (KeptExisting, w)"
  by (simp add: main_def no_log_files_iff)

lemma main_wrote:
  "\<not> no_log_files w \<Longrightarrow> processFiles h (clock w) init_agg (session_files w) = Some st \<Longrightarrow>
   main h w = (Wrote (make_payload h (clock w) st),
               w\<lparr> metrics_json := Some (make_payload h (clock w) st) \<rparr>)"
  by (simp add: main_def no_log_files_iff Let_def)

lemma main_threw:
  "\<not> no_log_files w \<Longrightarrow> processFiles h (clock w) init_agg (session_files w) = None \<Longrightarrow>
   main h w = (Threw, w)"
  by (simp add: main_def no_log_files_iff)

lemma main_WroteD:
  assumes "fst (main h w) = Wrote p"
  obtains st where "processFiles h (clock w) init_agg (session_files w) = Some st"
    and "p = make_payload h (clock w) st" and "\<not> no_log_files w"
proof (cases "no_log_files w")
  case True
  with assms show thesis by (simp add: main_kept)
next
  case False
  show thesis
  proof (cases "processFiles h (clock w) init_agg (session_files w)")
    case None
    with False assms show thesis by (simp add: main_threw)
  next
    case (Some st)
    with False assms have "p = make_payload h (clock w) st" by (simp add: main_wrote)
    with Some False that show thesis by blast
  qed
qed

subsection \<open>The sample runs\<close>

lemma sample_text_lines:
  "split_nl sample_text = [line_anthropic, ''not json'', line_openai, line_no_timestamp, []]"
  by (simp add: sample_text_def line_anthropic_def line_openai_def line_no_timestamp_def)

lemma sample_trims_more:
  "trim line_no_timestamp = line_no_timestamp" "trim line_nan_cost = line_nan_cost"
  by (simp_all add: trim_def isWhiteSpace_def line_no_timestamp_def line_nan_cost_def)

lemma sample_parses_more:
  "JSON_parse sample_host line_no_timestamp = Some event_no_timestamp"
  "JSON_parse sample_host line_nan_cost = Some event_nan_cost"
  by (simp_all add: sample_host_def line_anthropic_def line_openai_def line_no_timestamp_def
      line_nan_cost_def)

lemma sample_lines_nonempty:
  "line_anthropic \<noteq> []" "line_openai \<noteq> []" "line_no_timestamp \<noteq> []" "line_nan_cost \<noteq> []"
  by (simp_all add: line_anthropic_def line_openai_def line_no_timestamp_def line_nan_cost_def)

lemma readJsonl_sample_text:
  "readJsonl sample_host sample_text = [event_anthropic, event_openai, event_no_timestamp]"
  unfolding readJsonl_def sample_text_lines
  by (simp add: sample_trims sample_trims_more sample_parses sample_parses_more
      sample_lines_nonempty)

lemma session_files_sample: "session_files sample_world = [Some sample_text]"
  by (simp add: session_files_def sample_world_def suffix_to_prefix)

lemma included_no_timestamp: "included event_no_timestamp"
  by (simp add: included_def usage_of_def msg_of_def opt_get_def event_no_timestamp_def)

lemma processEvent_no_timestamp:
  "take 10 (clk 0) \<noteq> ''2026-02-20'' \<Longrightarrow>
   processEvent sample_host clk state_after_both event_no_timestamp =
     Some (state_after_three (take 10 (clk 0)))"
  by (simp add: eval_defs event_no_timestamp_def state_after_both_def state_after_three_def
      sample_host_def)

lemma processEvents_three:
  "take 10 (clk 0) \<noteq> ''2026-02-20'' \<Longrightarrow>
   processEvents sample_host clk init_agg [event_anthropic, event_openai, event_no_timestamp] =
     Some (state_after_three (take 10 (clk 0)))"
  by (simp add: processEvent_anthropic processEvent_openai processEvent_no_timestamp)

lemma processFiles_sample:
  "processFiles sample_host sample_clock init_agg [Some sample_text] =
     Some (state_after_three ''2026-03-01'')"
  using processEvents_three [of sample_clock]
  by (simp add: readJsonl_sample_text sample_clock_def)

lemma processFiles_next_day:
  "processFiles sample_host next_day_clock init_agg [Some sample_text] =
     Some (state_after_three ''2026-03-02'')"
  using processEvents_three [of next_day_clock]
  by (simp add: readJsonl_sample_text next_day_clock_def)

lemma make_payload_sample:
  "make_payload sample_host sample_clock (state_after_three ''2026-03-01'') = sample_payload"
  by (simp add: make_payload_def state_after_three_def sample_payload_def payload_at_def
      js_sort_def sample_host_def sample_clock_def)

lemma make_payload_next_day:
  "make_payload sample_host next_day_clock (state_after_three ''2026-03-02'') = next_day_payload"
  by (simp add: make_payload_def state_after_three_def next_day_payload_def payload_at_def
      js_sort_def sample_host_def next_day_clock_def)

lemma clock_sample_world: "clock sample_world = sample_clock"
  by (simp add: sample_world_def)

lemma clock_next_day_world: "clock next_day_world = next_day_clock"
  by (simp add: next_day_world_def)

lemma sample_world_has_logs: "\<not> no_log_files sample_world"
  by (simp add: no_log_files_iff session_files_sample)

lemma main_sample:
  "main sample_host sample_world =
     (Wrote sample_payload, sample_world\<lparr> metrics_json := Some sample_payload \<rparr>)"
proof -
  have "processFiles sample_host (clock sample_world) init_agg (session_files sample_world) =
          Some (state_after_three ''2026-03-01'')"
    unfolding session_files_sample clock_sample_world by (rule processFiles_sample)
  from main_wrote [OF sample_world_has_logs this] show ?thesis
    by (simp add: make_payload_sample clock_sample_world)
qed

lemma main_next_day:
  "main sample_host next_day_world =
     (Wrote next_day_payload, next_day_world\<lparr> metrics_json := Some next_day_payload \<rparr>)"
proof -
  have sf: "session_files next_day_world = [Some sample_text]"
    using session_files_sample by (simp add: session_files_def next_day_world_def)
  then have "\<not> no_log_files next_day_world" by (simp add: no_log_files_iff)
  moreover have "processFiles sample_host (clock next_day_world) init_agg
                   (session_files next_day_world) = Some (state_after_three ''2026-03-02'')"
    unfolding sf clock_next_day_world by (rule processFiles_next_day)
  ultimately show ?thesis
    using main_wrote [of next_day_world sample_host "state_after_three ''2026-03-02''"]
    by (simp add: make_payload_next_day clock_next_day_world)
qed

section \<open>The early exit (claim C1)\<close>

text \<open>
  Claim C1 fails as it is worded: the run also exits early when the sessions directory
  exists and lists no \<^verbatim>\<open>.jsonl\<close> file. The directory of \<open>world_without_logs\<close> exists
  and holds one file, \<^verbatim>\<open>notes.txt\<close>; the run writes nothing.
\<close>

theorem early_exit_counterexample:
  "sessionsDir world_without_logs = Some [(''notes.txt'', Some ''hello'')] \<and>
   main sample_host world_without_logs = (KeptExisting, world_without_logs)"
proof -
  have "no_log_files world_without_logs"
    by (simp add: no_log_files_def world_without_logs_def suffix_to_prefix)
  then have "main sample_host world_without_logs = (KeptExisting, world_without_logs)"
    by (rule main_kept)
  then show ?thesis by (simp add: world_without_logs_def)
qed

text \<open>
  Claim C1, amended. The run exits early, writing nothing and leaving the document at
  \<^verbatim>\<open>public/metrics.json\<close> as it was, if and only if the sessions directory is absent or
  lists no name ending in \<^verbatim>\<open>.jsonl\<close>. Otherwise, when reading and aggregating the
  files returns, the run writes exactly one payload, which becomes the document; when
  reading or aggregating throws, nothing is written.
\<close>

theorem early_exit_iff_no_log_files:
  "(fst (main h w) = KeptExisting \<longleftrightarrow> no_log_files w) \<and>
   (no_log_files w \<longrightarrow> main h w = (KeptExisting, w)) \<and>
   (\<not> no_log_files w \<longrightarrow>
      (case processFiles h (clock w) init_agg (session_files w) of
         Some st \<Rightarrow>
           main h w = (Wrote (make_payload h (clock w) st),
                       w\<lparr> metrics_json := Some (make_payload h (clock w) st) \<rparr>)
       | None \<Rightarrow> main h w = (Threw, w)))"
proof (intro conjI impI)
  show "fst (main h w) = KeptExisting \<longleftrightarrow> no_log_files w"
  proof (cases "no_log_files w")
    case True
    then show ?thesis by (simp add: main_kept)
  next
    case False
    then show ?thesis
      by (cases "processFiles h (clock w) init_agg (session_files w)")
        (simp_all add: main_wrote main_threw)
  qed
next
  assume "no_log_files w"
  then show "main h w = (KeptExisting, w)" by (rule main_kept)
next
  assume "\<not> no_log_files w"
  then show "case processFiles h (clock w) init_agg (session_files w) of
         Some st \<Rightarrow>
           main h w = (Wrote (make_payload h (clock w) st),
                       w\<lparr> metrics_json := Some (make_payload h (clock w) st) \<rparr>)
       | None \<Rightarrow> main h w = (Threw, w)"
    by (cases "processFiles h (clock w) init_agg (session_files w)")
      (simp_all add: main_wrote main_threw)
qed

theorem early_exit_iff_no_log_files_witness:
  "no_log_files world_without_directory \<and>
   main sample_host world_without_directory = (KeptExisting, world_without_directory) \<and>
   \<not> no_log_files sample_world \<and>
   fst (main sample_host sample_world) = Wrote sample_payload \<and>
   metrics_json (snd (main sample_host sample_world)) = Some sample_payload"
proof -
  have a: "no_log_files world_without_directory"
    by (simp add: no_log_files_def world_without_directory_def)
  with early_exit_iff_no_log_files [of sample_host world_without_directory]
  have b: "main sample_host world_without_directory = (KeptExisting, world_without_directory)"
    by blast
  have pf: "processFiles sample_host (clock sample_world) init_agg (session_files sample_world) =
          Some (state_after_three ''2026-03-01'')"
    unfolding session_files_sample clock_sample_world by (rule processFiles_sample)
  from early_exit_iff_no_log_files [of sample_host sample_world] sample_world_has_logs
  have "case processFiles sample_host (clock sample_world) init_agg (session_files sample_world) of
         Some st \<Rightarrow>
           main sample_host sample_world =
             (Wrote (make_payload sample_host (clock sample_world) st),
              sample_world\<lparr> metrics_json := Some (make_payload sample_host (clock sample_world) st) \<rparr>)
       | None \<Rightarrow> main sample_host sample_world = (Threw, sample_world)"
    by blast
  then have "main sample_host sample_world =
       (Wrote sample_payload, sample_world\<lparr> metrics_json := Some sample_payload \<rparr>)"
    unfolding pf by (simp add: make_payload_sample clock_sample_world)
  then have "fst (main sample_host sample_world) = Wrote sample_payload"
    and "metrics_json (snd (main sample_host sample_world)) = Some sample_payload"
    by simp_all
  with a b sample_world_has_logs show ?thesis by (intro conjI)
qed

section \<open>The order of the arrays of the payload (claim C5)\<close>

subsection \<open>The sort, when the comparator agrees with a key\<close>

lemma set_insert_by: "set (insert_by cmp x xs) = insert x (set xs)"
  by (induction xs) auto

lemma set_js_sort: "set (js_sort cmp xs) = set xs"
  unfolding js_sort_def by (induction xs) (simp_all add: set_insert_by)

lemma insert_by_insort_key:
  fixes key :: "'a \<Rightarrow> 'k::linorder"
  assumes "\<forall>b\<in>set ys. before_or_equal (cmp x b) = (key x \<le> key b)"
  shows "insert_by cmp x ys = insort_key key x ys"
  using assms by (induction ys) simp_all

lemma js_sort_Cons: "js_sort cmp (x # xs) = insert_by cmp x (js_sort cmp xs)"
  by (simp add: js_sort_def)

lemma js_sort_sort_key:
  fixes key :: "'a \<Rightarrow> 'k::linorder"
  assumes "\<forall>a\<in>set xs. \<forall>b\<in>set xs. before_or_equal (cmp a b) = (key a \<le> key b)"
  shows "js_sort cmp xs = sort_key key xs"
  using assms
proof (induction xs)
  case Nil
  show ?case by (simp add: js_sort_def)
next
  case (Cons x xs)
  from Cons.prems have "js_sort cmp xs = sort_key key xs"
    by (intro Cons.IH) simp
  moreover from Cons.prems
  have "\<forall>b\<in>set (sort_key key xs). before_or_equal (cmp x b) = (key x \<le> key b)"
    by simp
  ultimately show ?case
    by (simp add: js_sort_Cons insert_by_insort_key)
qed

lemma map_filter_inj:
  assumes "inj_on f (set xs)"
  shows "map f (filter P xs) = filter (\<lambda>k. k \<in> f ` {x \<in> set xs. P x}) (map f xs)"
proof -
  have "\<forall>x\<in>set xs. (f x \<in> f ` {x \<in> set xs. P x}) = P x"
    using assms by (auto dest: inj_onD)
  then have "filter ((\<lambda>k. k \<in> f ` {x \<in> set xs. P x}) \<circ> f) xs = filter P xs"
    by (intro filter_cong) simp_all
  then show ?thesis by (simp add: filter_map)
qed

subsection \<open>The keys of the two maps\<close>

lemma list_all_update_pair:
  "list_all P al \<Longrightarrow> P (k, v) \<Longrightarrow> list_all P (AList.update k v al)"
  by (induction al) auto

lemma list_all_map_of_pair:
  "list_all P al \<Longrightarrow> map_of al k = Some v \<Longrightarrow> P (k, v)"
  by (induction al) (auto split: if_splits)

lemma model_entry_key:
  assumes "list_all (\<lambda>(k, m). model m = k) (byModel st)"
  shows "model (model_entry st mdl prov) = mdl"
proof (cases "map_of (byModel st) mdl")
  case None
  then show ?thesis by (simp add: model_entry_def)
next
  case (Some m)
  with assms have "model m = mdl" by (auto dest: list_all_map_of_pair)
  with Some show ?thesis by (simp add: model_entry_def)
qed

lemma processEvent_model_keys:
  assumes "list_all (\<lambda>(k, m). model m = k) (byModel st)"
    and "processEvent h c st e = Some st'"
  shows "list_all (\<lambda>(k, m). model m = k) (byModel st')"
proof (cases "included e")
  case False
  with assms show ?thesis by (simp add: processEvent_excluded)
next
  case True
  from True assms(2) obtain mdl prov inp out tot cst where
    bm: "byModel st' =
           AList.update mdl (add_usage inp out tot cst (model_entry st mdl prov)) (byModel st)"
    by (elim processEvent_includedE)
  have "model (add_usage inp out tot cst (model_entry st mdl prov)) = mdl"
    using model_entry_key [OF assms(1)] by (simp add: add_usage_def)
  with assms(1) show ?thesis unfolding bm by (intro list_all_update_pair) simp_all
qed

lemma processEvents_model_keys:
  "list_all (\<lambda>(k, m). model m = k) (byModel st) \<Longrightarrow> processEvents h c st es = Some st' \<Longrightarrow>
   list_all (\<lambda>(k, m). model m = k) (byModel st')"
proof (induction es arbitrary: st)
  case Nil
  then show ?case by simp
next
  case (Cons e es)
  from Cons.prems(2) obtain st1 where
    1: "processEvent h c st e = Some st1" and 2: "processEvents h c st1 es = Some st'"
    by (auto split: option.splits)
  from Cons.prems(1) 1 have "list_all (\<lambda>(k, m). model m = k) (byModel st1)"
    by (rule processEvent_model_keys)
  from this 2 show ?case by (rule Cons.IH)
qed

lemma model_keys_map:
  "list_all (\<lambda>(k, m). model m = k) al \<Longrightarrow> map model (map snd al) = map fst al"
  by (induction al) auto

text \<open>The keys of \<^verbatim>\<open>byModel\<close> are the model keys of the included events, each at its first place.\<close>

lemma first_occurrences_absorb:
  "rev (remdups (rev (rev (remdups (rev xs)) @ ys))) = rev (remdups (rev (xs @ ys)))"
  by (simp add: remdups_append2)

lemma processEvent_model_order:
  assumes "distinct (map fst (byModel st))" and "processEvent h c st e = Some st'"
  shows "map fst (byModel st') =
           rev (remdups (rev (map fst (byModel st) @ map chosen_model (filter included [e]))))"
proof (cases "included e")
  case False
  with assms show ?thesis by (simp add: processEvent_excluded distinct_remdups_id)
next
  case True
  from True assms(2) obtain s prov inp out tot cst where
    cm: "chosen_model e = JString s" and
    bm: "byModel st' = AList.update (JString s)
           (add_usage inp out tot cst (model_entry st (JString s) prov)) (byModel st)"
    by (rule processEvent_model)
  from assms(1) have "rev (remdups (rev (map fst (byModel st)))) = map fst (byModel st)"
    by (simp add: distinct_remdups_id)
  with True cm show ?thesis
    unfolding bm by (simp add: update_keys)
qed

lemma processEvents_model_order:
  "distinct (map fst (byModel st)) \<Longrightarrow> processEvents h c st es = Some st' \<Longrightarrow>
   map fst (byModel st') =
     rev (remdups (rev (map fst (byModel st) @ map chosen_model (filter included es))))"
proof (induction es arbitrary: st)
  case Nil
  then show ?case by (simp add: distinct_remdups_id)
next
  case (Cons e es)
  from Cons.prems(2) obtain st1 where
    1: "processEvent h c st e = Some st1" and 2: "processEvents h c st1 es = Some st'"
    by (auto split: option.splits)
  let ?ks = "map fst (byModel st)" and ?new = "map chosen_model (filter included [e])"
    and ?rest = "map chosen_model (filter included es)"
  from Cons.prems(1) 1 have k1: "map fst (byModel st1) = rev (remdups (rev (?ks @ ?new)))"
    by (rule processEvent_model_order)
  then have "distinct (map fst (byModel st1))" by simp
  from this 2 have "map fst (byModel st') = rev (remdups (rev (map fst (byModel st1) @ ?rest)))"
    by (rule Cons.IH)
  also have "\<dots> = rev (remdups (rev ((?ks @ ?new) @ ?rest)))"
    unfolding k1 by (rule first_occurrences_absorb)
  also have "(?ks @ ?new) @ ?rest = ?ks @ map chosen_model (filter included (e # es))"
    by simp
  finally show ?case .
qed

lemma processEvents_discovery_order:
  assumes "processEvents h c init_agg es = Some st"
  shows "map fst (byModel st) = discovery_order es"
  using processEvents_model_order [OF _ assms]
  by (simp add: init_agg_def discovery_order_def)

lemma distinct_discovery_order: "distinct (discovery_order es)"
  by (simp add: discovery_order_def)

subsection \<open>The two sorted arrays\<close>

lemma daily_sorted:
  assumes "\<forall>a\<in>set ds. \<forall>b\<in>set ds. (localeCompare h (date a) (date b) \<le> 0) = (date a \<le> date b)"
  shows "sorted (map date
           (js_sort (\<lambda>a b. Num (of_int (localeCompare h (date a) (date b)))) ds))"
proof -
  from assms have "js_sort (\<lambda>a b. Num (of_int (localeCompare h (date a) (date b)))) ds =
                     sort_key date ds"
    by (intro js_sort_sort_key) simp
  then show ?thesis by simp
qed

lemma cost_order_key:
  assumes "is_number (cost a)" and "is_number (cost b)"
  shows "before_or_equal (js_sub (cost b) (cost a)) =
           (- num_val (cost a) \<le> - num_val (cost b))"
  using assms by (cases "cost a"; cases "cost b") simp_all

lemma models_sort_key:
  assumes "\<forall>m\<in>set ms. is_number (cost m)"
  shows "js_sort (\<lambda>a b. js_sub (cost b) (cost a)) ms = sort_key (\<lambda>m. - num_val (cost m)) ms"
  using assms by (intro js_sort_sort_key) (simp add: cost_order_key)

lemma models_sorted:
  assumes "\<forall>m\<in>set ms. is_number (cost m)"
  shows "sorted_wrt (\<lambda>a b. num_val (cost a) \<ge> num_val (cost b))
           (js_sort (\<lambda>a b. js_sub (cost b) (cost a)) ms)"
proof -
  have "sorted (map (\<lambda>m. - num_val (cost m)) (sort_key (\<lambda>m. - num_val (cost m)) ms))"
    by simp
  then show ?thesis
    unfolding models_sort_key [OF assms] by (simp add: sorted_map)
qed

lemma models_stable:
  fixes ms :: "'a metric_scheme list"
  assumes "\<forall>m\<in>set ms. is_number (cost m)"
  shows "filter (\<lambda>m. cost m = c) (js_sort (\<lambda>a b. js_sub (cost b) (cost a)) ms) =
         filter (\<lambda>m. cost m = c) ms"
proof -
  let ?key = "\<lambda>m::'a metric_scheme. - num_val (cost m)"
  have eq: "\<forall>m\<in>set ms. (cost m = c) = (is_number c \<and> ?key m = - num_val c)"
  proof
    fix m assume "m \<in> set ms"
    with assms have "is_number (cost m)" by blast
    then show "(cost m = c) = (is_number c \<and> ?key m = - num_val c)"
      by (cases "cost m"; cases c) simp_all
  qed
  show ?thesis
  proof (cases "is_number c")
    case True
    have "filter (\<lambda>m. cost m = c) (sort_key ?key ms) =
          filter (\<lambda>m. ?key m = - num_val c) (sort_key ?key ms)"
      using eq True by (intro filter_cong) simp_all
    also have "\<dots> = filter (\<lambda>m. ?key m = - num_val c) ms"
      by (rule sort_key_stable)
    also have "\<dots> = filter (\<lambda>m. cost m = c) ms"
      using eq True by (intro filter_cong) simp_all
    finally show ?thesis unfolding models_sort_key [OF assms] .
  next
    case False
    with eq have "\<forall>m\<in>set ms. cost m \<noteq> c" by simp
    then have "filter (\<lambda>m. cost m = c) ms = []"
      and "filter (\<lambda>m. cost m = c) (sort_key ?key ms) = []"
      by (simp_all add: filter_empty_conv)
    then show ?thesis unfolding models_sort_key [OF assms] by simp
  qed
qed

subsection \<open>The run in \<open>nan_world\<close>\<close>

lemma nan_text_lines:
  "split_nl (line_anthropic @ [CHR 0x0A] @ line_nan_cost @ [CHR 0x0A] @ line_openai) =
     [line_anthropic, line_nan_cost, line_openai]"
  by (simp add: line_anthropic_def line_openai_def line_nan_cost_def)

lemma readJsonl_nan_text:
  "readJsonl sample_host (line_anthropic @ [CHR 0x0A] @ line_nan_cost @ [CHR 0x0A] @ line_openai) =
     [event_anthropic, event_nan_cost, event_openai]"
  unfolding readJsonl_def nan_text_lines
  by (simp add: sample_trims sample_trims_more sample_parses sample_parses_more
      sample_lines_nonempty)

lemma processEvents_nan:
  "processEvents sample_host clk init_agg [event_anthropic, event_nan_cost, event_openai] =
     Some nan_state"
  by (simp add: processEvent_anthropic)
    (simp add: eval_defs event_nan_cost_def event_openai_def state_after_anthropic_def
      nan_state_def sample_host_def)

lemma session_files_nan:
  "session_files nan_world =
     [Some (line_anthropic @ [CHR 0x0A] @ line_nan_cost @ [CHR 0x0A] @ line_openai)]"
  by (simp add: session_files_def nan_world_def suffix_to_prefix)

lemma clock_nan_world: "clock nan_world = sample_clock"
  by (simp add: nan_world_def)

lemma make_payload_nan: "make_payload sample_host sample_clock nan_state = nan_payload"
  by (simp add: make_payload_def nan_state_def nan_payload_def js_sort_def sample_host_def
      sample_clock_def)

lemma processFiles_nan:
  "processFiles sample_host clk init_agg
     [Some (line_anthropic @ [CHR 0x0A] @ line_nan_cost @ [CHR 0x0A] @ line_openai)] =
     Some nan_state"
  by (simp only: processFiles.simps option.case readJsonl_nan_text processEvents_nan)

lemma main_nan:
  "main sample_host nan_world = (Wrote nan_payload, nan_world\<lparr> metrics_json := Some nan_payload \<rparr>)"
proof -
  have "\<not> no_log_files nan_world" by (simp add: no_log_files_iff session_files_nan)
  moreover have "processFiles sample_host (clock nan_world) init_agg (session_files nan_world) =
          Some nan_state"
    unfolding session_files_nan clock_nan_world by (rule processFiles_nan)
  ultimately show ?thesis
    using main_wrote [of nan_world sample_host nan_state]
    by (simp add: make_payload_nan clock_nan_world)
qed

text \<open>
  Claim C5 fails as it is worded: not every emitted payload has its \<^verbatim>\<open>models\<close> in
  non-increasing order of cost. In \<open>nan_world\<close> the second of three models has the cost
  \<^verbatim>\<open>NaN\<close> (its \<^verbatim>\<open>cost.total\<close> is the string \<^verbatim>\<open>"n/a"\<close>); every comparison with it
  returns \<^verbatim>\<open>NaN\<close>, which the sort reads as a tie, and the array stays in discovery
  order with the cost 3/2 before the cost 9/4.
\<close>

theorem models_order_counterexample:
  "fst (main sample_host nan_world) = Wrote nan_payload \<and>
   map cost (models nan_payload) = [Num (3/2), NaN, Num (9/4)] \<and>
   map model (models nan_payload) =
     [JString ''anthropic/claude-3'', JString ''local/llama'', JString ''openai/gpt-4'']"
  by (simp add: main_nan) (simp add: nan_payload_def)

subsection \<open>Sorted arrays in every payload without a \<^verbatim>\<open>NaN\<close> cost\<close>

lemma main_Wrote_events:
  assumes "fst (main h w) = Wrote p"
  obtains st where
    "processEvents h (clock w) init_agg (all_events h (session_files w)) = Some st"
    and "p = make_payload h (clock w) st"
proof -
  from assms obtain st where
    "processFiles h (clock w) init_agg (session_files w) = Some st"
    and "p = make_payload h (clock w) st"
    by (rule main_WroteD)
  with that processFiles_events show thesis by blast
qed

text \<open>
  Claim C5, amended. In every emitted payload: if the runtime's \<^verbatim>\<open>localeCompare\<close>
  orders the dates of the payload as their code units do (as it does for ISO dates), the
  \<^verbatim>\<open>daily\<close> array is non-decreasing by date under lexicographic comparison; and if no
  model has the cost \<^verbatim>\<open>NaN\<close>, the \<^verbatim>\<open>models\<close> array is non-increasing by cost, and
  the models of any one cost stand in the order in which their keys were first met among
  the included events.
\<close>

theorem payload_arrays_ordered:
  assumes "fst (main h w) = Wrote p"
  shows "((\<forall>a\<in>set (daily p). \<forall>b\<in>set (daily p).
             (localeCompare h (date a) (date b) \<le> 0) = (date a \<le> date b)) \<longrightarrow>
          sorted (map date (daily p))) \<and>
         (list_all (\<lambda>m. is_number (cost m)) (models p) \<longrightarrow>
          sorted_wrt (\<lambda>a b. num_val (cost a) \<ge> num_val (cost b)) (models p) \<and>
          (\<forall>c. map model (filter (\<lambda>m. cost m = c) (models p)) =
                 filter (\<lambda>k. k \<in> set (map model (filter (\<lambda>m. cost m = c) (models p))))
                   (discovery_order (all_events h (session_files w)))))"
proof (intro conjI impI allI)
  from assms obtain st where
    run: "processEvents h (clock w) init_agg (all_events h (session_files w)) = Some st" and
    p: "p = make_payload h (clock w) st"
    by (rule main_Wrote_events)
  let ?ds = "map snd (byDay st)" and ?ms = "map snd (byModel st)"
  have d: "daily p = js_sort (\<lambda>a b. Num (of_int (localeCompare h (date a) (date b)))) ?ds"
    and m: "models p = js_sort (\<lambda>a b. js_sub (cost b) (cost a)) ?ms"
    by (simp_all add: p make_payload_def)
  {
    assume "\<forall>a\<in>set (daily p). \<forall>b\<in>set (daily p).
              (localeCompare h (date a) (date b) \<le> 0) = (date a \<le> date b)"
    then have "\<forall>a\<in>set ?ds. \<forall>b\<in>set ?ds.
              (localeCompare h (date a) (date b) \<le> 0) = (date a \<le> date b)"
      unfolding d set_js_sort .
    then show "sorted (map date (daily p))" unfolding d by (rule daily_sorted)
  }
  assume "list_all (\<lambda>m. is_number (cost m)) (models p)"
  then have num: "\<forall>m\<in>set ?ms. is_number (cost m)"
    unfolding m by (simp add: list_all_iff set_js_sort)
  then show "sorted_wrt (\<lambda>a b. num_val (cost a) \<ge> num_val (cost b)) (models p)"
    unfolding m by (rule models_sorted)
  fix c
  have keys: "map model ?ms = discovery_order (all_events h (session_files w))"
  proof -
    have "list_all (\<lambda>(k, m). model m = k) (byModel init_agg)" by (simp add: init_agg_def)
    from this run have "list_all (\<lambda>(k, m). model m = k) (byModel st)"
      by (rule processEvents_model_keys)
    then have "map model ?ms = map fst (byModel st)" by (rule model_keys_map)
    with processEvents_discovery_order [OF run] show ?thesis by simp
  qed
  then have "distinct (map model ?ms)" by (simp add: distinct_discovery_order)
  then have inj: "inj_on model (set ?ms)" unfolding distinct_map by (rule conjunct2)
  have "map model (filter (\<lambda>m. cost m = c) (models p)) =
        map model (filter (\<lambda>m. cost m = c) ?ms)"
    unfolding m by (simp only: models_stable [OF num])
  also have "\<dots> = filter (\<lambda>k. k \<in> model ` {m \<in> set ?ms. cost m = c}) (map model ?ms)"
    using inj by (rule map_filter_inj)
  also have "model ` {m \<in> set ?ms. cost m = c} =
               set (map model (filter (\<lambda>m. cost m = c) (models p)))"
    unfolding m by (simp add: set_js_sort)
  finally show "map model (filter (\<lambda>m. cost m = c) (models p)) =
                 filter (\<lambda>k. k \<in> set (map model (filter (\<lambda>m. cost m = c) (models p))))
                   (discovery_order (all_events h (session_files w)))"
    unfolding keys .
qed

lemma sample_discovery_order:
  "discovery_order (all_events sample_host (session_files sample_world)) =
     [JString ''anthropic/claude-3'', JString ''openai/gpt-4'', JString ''xai/grok-2'']"
proof -
  have "all_events sample_host (session_files sample_world) =
          [event_anthropic, event_openai, event_no_timestamp]"
    by (simp add: all_events_def session_files_sample readJsonl_sample_text)
  moreover have "filter included [event_anthropic, event_openai, event_no_timestamp] =
          [event_anthropic, event_openai, event_no_timestamp]"
    by (simp add: included_anthropic included_openai included_no_timestamp)
  moreover have "chosen_model event_anthropic = JString ''anthropic/claude-3''"
    "chosen_model event_openai = JString ''openai/gpt-4''"
    "chosen_model event_no_timestamp = JString ''xai/grok-2''"
    by (simp_all add: chosen_model_def event_anthropic_def event_openai_def
        event_no_timestamp_def)
  ultimately show ?thesis by (simp add: discovery_order_def)
qed

theorem payload_arrays_ordered_witness:
  "fst (main sample_host sample_world) = Wrote sample_payload \<and>
   map date (daily sample_payload) = [''2026-02-20'', ''2026-03-01''] \<and>
   sorted (map date (daily sample_payload)) \<and>
   map cost (models sample_payload) = [Num (9/4), Num (3/2), Num (3/2)] \<and>
   sorted_wrt (\<lambda>a b. num_val (cost a) \<ge> num_val (cost b)) (models sample_payload) \<and>
   discovery_order (all_events sample_host (session_files sample_world)) =
     [JString ''anthropic/claude-3'', JString ''openai/gpt-4'', JString ''xai/grok-2''] \<and>
   map model (filter (\<lambda>m. cost m = Num (3/2)) (models sample_payload)) =
     [JString ''anthropic/claude-3'', JString ''xai/grok-2'']"
proof -
  have w: "fst (main sample_host sample_world) = Wrote sample_payload"
    by (simp add: main_sample)
  have dates: "map date (daily sample_payload) = [''2026-02-20'', ''2026-03-01'']"
    and costs: "map cost (models sample_payload) = [Num (9/4), Num (3/2), Num (3/2)]"
    by (simp_all add: sample_payload_def payload_at_def)
  have lc: "\<forall>a\<in>set (daily sample_payload). \<forall>b\<in>set (daily sample_payload).
             (localeCompare sample_host (date a) (date b) \<le> 0) = (date a \<le> date b)"
    by (simp add: sample_payload_def payload_at_def sample_host_def)
  have nums: "list_all (\<lambda>m. is_number (cost m)) (models sample_payload)"
    by (simp add: sample_payload_def payload_at_def)
  note ordered = payload_arrays_ordered [OF w]
  from ordered lc have 1: "sorted (map date (daily sample_payload))" by blast
  from ordered nums
  have 2: "sorted_wrt (\<lambda>a b. num_val (cost a) \<ge> num_val (cost b)) (models sample_payload)"
    by blast
  from ordered nums
  have "map model (filter (\<lambda>m. cost m = Num (3/2)) (models sample_payload)) =
          filter (\<lambda>k. k \<in> set (map model
                         (filter (\<lambda>m. cost m = Num (3/2)) (models sample_payload))))
            (discovery_order (all_events sample_host (session_files sample_world)))"
    by blast
  also have "\<dots> = [JString ''anthropic/claude-3'', JString ''xai/grok-2'']"
    unfolding sample_discovery_order
    by (simp add: sample_payload_def payload_at_def)
  finally have 3: "map model (filter (\<lambda>m. cost m = Num (3/2)) (models sample_payload)) =
     [JString ''anthropic/claude-3'', JString ''xai/grok-2'']" .
  from w dates 1 costs 2 sample_discovery_order 3 show ?thesis by (intro conjI)
qed

section \<open>Running twice over the same files (claim C7)\<close>

lemma chosen_timestamp_has: "has_timestamp e \<Longrightarrow> chosen_timestamp now e = chosen_timestamp now' e"
  by (auto simp: chosen_timestamp_def has_timestamp_def)

lemma chosen_timestamp_clock: "\<not> has_timestamp e \<Longrightarrow> chosen_timestamp now e = JString now"
  by (simp add: chosen_timestamp_def has_timestamp_def)

text \<open>The loop body reads the clock only for the day of an event that has no timestamp.\<close>

lemma processEvent_clock:
  assumes "has_timestamp e \<or> take 10 (c1 (ticks st)) = take 10 (c2 (ticks st))"
  shows "processEvent h c1 st e = processEvent h c2 st e"
proof (cases "included e")
  case False
  then show ?thesis by (simp add: processEvent_excluded)
next
  case True
  note tr = included_msg [OF True]
  show ?thesis
  proof (cases "has_timestamp e")
    case True
    with tr have "resolve_ts c1 (ticks st) e (msg_of e) = resolve_ts c2 (ticks st) e (msg_of e)"
      using chosen_timestamp_has [of e "c1 (ticks st)" "c2 (ticks st)"]
      by (simp add: resolve_ts_eq)
    then show ?thesis by (simp add: processEvent_included [OF \<open>included e\<close>])
  next
    case False
    with assms have eq: "take 10 (c1 (ticks st)) = take 10 (c2 (ticks st))" by simp
    from False tr have r: "resolve_ts c1 (ticks st) e (msg_of e) =
                             Some (JString (c1 (ticks st)), Suc (ticks st))"
      "resolve_ts c2 (ticks st) e (msg_of e) = Some (JString (c2 (ticks st)), Suc (ticks st))"
      by (simp_all add: resolve_ts_eq chosen_timestamp_clock)
    show ?thesis
      unfolding processEvent_included [OF \<open>included e\<close>] r by (simp add: eq)
  qed
qed

lemma processEvents_clock:
  assumes "list_all has_timestamp (filter included es) \<or>
           (\<forall>n. take 10 (c1 n) = take 10 (c2 n))"
  shows "processEvents h c1 st es = processEvents h c2 st es"
  using assms
proof (induction es arbitrary: st)
  case Nil
  show ?case by simp
next
  case (Cons e es)
  have 1: "processEvent h c1 st e = processEvent h c2 st e"
  proof (cases "included e")
    case True
    with Cons.prems
    have "has_timestamp e \<or> take 10 (c1 (ticks st)) = take 10 (c2 (ticks st))"
      by auto
    then show ?thesis by (rule processEvent_clock)
  next
    case False
    then show ?thesis by (simp add: processEvent_excluded)
  qed
  from Cons.prems have rest: "list_all has_timestamp (filter included es) \<or>
           (\<forall>n. take 10 (c1 n) = take 10 (c2 n))"
    by (auto split: if_splits)
  show ?case
    by (simp add: 1 Cons.IH [OF rest] split: option.splits)
qed

lemma all_events_single: "all_events h [Some content] = readJsonl h content"
  by (simp add: all_events_def)

lemma all_events_Cons:
  "all_events h (Some content # files) = readJsonl h content @ all_events h files"
  "all_events h (None # files) = all_events h files"
  by (simp_all add: all_events_def)

lemma processFiles_clock:
  assumes "list_all has_timestamp (filter included (all_events h files)) \<or>
           (\<forall>n. take 10 (c1 n) = take 10 (c2 n))"
  shows "processFiles h c1 st files = processFiles h c2 st files"
  using assms
proof (induction files arbitrary: st)
  case Nil
  show ?case by simp
next
  case (Cons fl files)
  show ?case
  proof (cases fl)
    case None
    then show ?thesis by simp
  next
    case (Some content)
    with Cons.prems have
      here: "list_all has_timestamp (filter included (readJsonl h content)) \<or>
             (\<forall>n. take 10 (c1 n) = take 10 (c2 n))" and
      rest: "list_all has_timestamp (filter included (all_events h files)) \<or>
             (\<forall>n. take 10 (c1 n) = take 10 (c2 n))"
      by (auto simp: all_events_Cons)
    from here have "processEvents h c1 st (readJsonl h content) =
                    processEvents h c2 st (readJsonl h content)"
      by (rule processEvents_clock)
    with Some show ?thesis
      by (simp add: Cons.IH [OF rest] split: option.splits)
  qed
qed

lemma make_payload_clock:
  "(make_payload h c2 st) \<lparr> generatedAt := generatedAt (make_payload h c1 st) \<rparr> =
   make_payload h c1 st"
  by (simp add: make_payload_def)

text \<open>
  Claim C7 fails as it is worded: an event without a timestamp is dated by the clock, so
  two runs over the same files on different days differ in \<^verbatim>\<open>daily\<close>. The third event
  of the sample file has no timestamp: the run of the 1st of March counts it under
  2026-03-01, the run of the 2nd of March under 2026-03-02.
\<close>

theorem rerun_counterexample:
  "sessionsDir next_day_world = sessionsDir sample_world \<and>
   fst (main sample_host sample_world) = Wrote sample_payload \<and>
   fst (main sample_host next_day_world) = Wrote next_day_payload \<and>
   map date (daily sample_payload) = [''2026-02-20'', ''2026-03-01''] \<and>
   map date (daily next_day_payload) = [''2026-02-20'', ''2026-03-02''] \<and>
   next_day_payload \<lparr> generatedAt := generatedAt sample_payload \<rparr> \<noteq> sample_payload"
proof -
  have "sessionsDir next_day_world = sessionsDir sample_world"
    by (simp add: next_day_world_def)
  moreover have "fst (main sample_host sample_world) = Wrote sample_payload"
    and "fst (main sample_host next_day_world) = Wrote next_day_payload"
    by (simp_all add: main_sample main_next_day)
  moreover have "map date (daily sample_payload) = [''2026-02-20'', ''2026-03-01'']"
    and "map date (daily next_day_payload) = [''2026-02-20'', ''2026-03-02'']"
    and "next_day_payload \<lparr> generatedAt := generatedAt sample_payload \<rparr> \<noteq> sample_payload"
    by (simp_all add: sample_payload_def next_day_payload_def payload_at_def)
  ultimately show ?thesis by (intro conjI)
qed

text \<open>
  Claim C7, amended. Two runs over the same sessions directory, with the same runtime,
  write payloads that are identical in every field except \<^verbatim>\<open>generatedAt\<close>, provided
  every included event carries a truthy \<^verbatim>\<open>event.timestamp\<close> or
  \<^verbatim>\<open>message.timestamp\<close>, or the clock shows the same date throughout both runs.
\<close>

theorem rerun_same_except_generatedAt:
  assumes "sessionsDir w2 = sessionsDir w1"
    and "fst (main h w1) = Wrote p1"
    and "list_all has_timestamp (filter included (all_events h (session_files w1))) \<or>
         (\<forall>n. take 10 (clock w1 n) = take 10 (clock w2 n))"
  shows "\<exists>p2. fst (main h w2) = Wrote p2 \<and> p2 \<lparr> generatedAt := generatedAt p1 \<rparr> = p1"
proof -
  from assms(1) have sf: "session_files w2 = session_files w1"
    by (simp add: session_files_def)
  from assms(2) obtain st where
    run: "processFiles h (clock w1) init_agg (session_files w1) = Some st" and
    p1: "p1 = make_payload h (clock w1) st" and
    logs: "\<not> no_log_files w1"
    by (rule main_WroteD)
  from assms(3) have "processFiles h (clock w1) init_agg (session_files w1) =
                      processFiles h (clock w2) init_agg (session_files w1)"
    by (rule processFiles_clock)
  with run sf have run2: "processFiles h (clock w2) init_agg (session_files w2) = Some st"
    by simp
  from logs sf have "\<not> no_log_files w2" by (simp add: no_log_files_iff)
  from main_wrote [OF this run2]
  have "fst (main h w2) = Wrote (make_payload h (clock w2) st)" by simp
  moreover have "(make_payload h (clock w2) st) \<lparr> generatedAt := generatedAt p1 \<rparr> = p1"
    unfolding p1 by (rule make_payload_clock)
  ultimately show ?thesis by blast
qed

lemma nan_world_timestamps:
  "list_all has_timestamp (filter included (all_events sample_host (session_files nan_world)))"
proof -
  have "all_events sample_host (session_files nan_world) =
          [event_anthropic, event_nan_cost, event_openai]"
    unfolding session_files_nan all_events_single by (rule readJsonl_nan_text)
  moreover have "has_timestamp event_anthropic" "has_timestamp event_nan_cost"
    "has_timestamp event_openai"
    by (simp_all add: has_timestamp_def event_anthropic_def event_nan_cost_def event_openai_def)
  ultimately show ?thesis by (simp add: list_all_iff)
qed

theorem rerun_same_except_generatedAt_witness:
  "sessionsDir (nan_world \<lparr> metrics_json := Some nan_payload, clock := next_day_clock \<rparr>) =
     sessionsDir nan_world \<and>
   fst (main sample_host nan_world) = Wrote nan_payload \<and>
   list_all has_timestamp (filter included (all_events sample_host (session_files nan_world))) \<and>
   (\<exists>p2. fst (main sample_host
                 (nan_world \<lparr> metrics_json := Some nan_payload, clock := next_day_clock \<rparr>)) =
            Wrote p2 \<and>
         p2 \<lparr> generatedAt := generatedAt nan_payload \<rparr> = nan_payload)"
proof -
  let ?w2 = "nan_world \<lparr> metrics_json := Some nan_payload, clock := next_day_clock \<rparr>"
  have a: "sessionsDir ?w2 = sessionsDir nan_world" by simp
  have b: "fst (main sample_host nan_world) = Wrote nan_payload" by (simp add: main_nan)
  from nan_world_timestamps
  have c: "list_all has_timestamp
             (filter included (all_events sample_host (session_files nan_world))) \<or>
           (\<forall>n. take 10 (clock nan_world n) = take 10 (clock ?w2 n))" ..
  from rerun_same_except_generatedAt [OF a b c] a b nan_world_timestamps
  show ?thesis by (intro conjI)
qed

end
